theory Spec2Isabelle
  imports Main "HOL-Library.Sublist" "HOL-Library.Char_ord" "HOL-Library.List_Lexorder"
    "HOL-Library.Multiset"
begin

section \<open>The Zenodo uploader (\<^verbatim>\<open>zenodo_uploader.py\<close>)\<close>

text \<open>
  The script is a sequence of HTTP calls against a deposition service. The embedding keeps
  the decoded JSON payloads as the script sees them, turns every exception into a value
  of \<open>py_error\<close>, and threads a world (the state of the remote service and the log of what
  happened so far) through every function. Output to the terminal (\<^verbatim>\<open>print\<close>) is left out.
\<close>

subsection \<open>Decoded JSON, errors\<close>

text \<open>
  What \<^verbatim>\<open>response.json()\<close> returns: \<^verbatim>\<open>None\<close>, booleans, integers, strings, lists and
  dictionaries (an association list, looked up with \<open>map_of\<close>). Floating point numbers are
  left out. A character is a code point below 256.
\<close>

datatype json =
    JNull
  | JBool bool
  | JInt int
  | JStr string
  | JArr "json list"
  | JObj "(string \<times> json) list"

datatype py_error =
    KeyError string
  | TypeError
  | AttributeError
  | IndexError
  | RuntimeError
  | JSONDecodeError
  | ConnectionError
  | HTTPError int
  | FileNotFoundError string
  | OSError string
  | NotModelled

text \<open>\<^verbatim>\<open>x[key]\<close> with a string key: only a dictionary can be subscripted that way.\<close>

fun get_item :: "json \<Rightarrow> string \<Rightarrow> py_error + json" where
  "get_item (JObj kvs) k = (case map_of kvs k of None \<Rightarrow> Inl (KeyError k) | Some v \<Rightarrow> Inr v)"
| "get_item _ k = Inl TypeError"

text \<open>\<^verbatim>\<open>for x in value\<close>: a list yields its elements, a dictionary its keys, a string its
  characters; nothing else can be iterated.\<close>

fun py_iter :: "json \<Rightarrow> py_error + json list" where
  "py_iter (JArr xs) = Inr xs"
| "py_iter (JObj kvs) = Inr (map (\<lambda>kv. JStr (fst kv)) kvs)"
| "py_iter (JStr s) = Inr (map (\<lambda>c. JStr [c]) s)"
| "py_iter _ = Inl TypeError"

text \<open>Truth value of an object, as \<^verbatim>\<open>if not deposition_id\<close> tests it.\<close>

fun truthy :: "json \<Rightarrow> bool" where
  "truthy JNull = False"
| "truthy (JBool b) = b"
| "truthy (JInt i) = (i \<noteq> 0)"
| "truthy (JStr s) = (s \<noteq> [])"
| "truthy (JArr xs) = (xs \<noteq> [])"
| "truthy (JObj kvs) = (kvs \<noteq> [])"

text \<open>Sequencing of computations that may raise.\<close>

definition ebind :: "py_error + 'a \<Rightarrow> ('a \<Rightarrow> py_error + 'b) \<Rightarrow> py_error + 'b" where
  "ebind m f = (case m of Inl e \<Rightarrow> Inl e | Inr x \<Rightarrow> f x)"

fun emap :: "('a \<Rightarrow> py_error + 'b) \<Rightarrow> 'a list \<Rightarrow> py_error + 'b list" where
  "emap f [] = Inr []"
| "emap f (x # xs) = ebind (f x) (\<lambda>y. ebind (emap f xs) (\<lambda>ys. Inr (y # ys)))"

subsection \<open>String operations of the standard library\<close>

text \<open>\<^verbatim>\<open>s.endswith(suf)\<close>\<close>

definition endswith :: "string \<Rightarrow> string \<Rightarrow> bool" where
  "endswith s suf = suffix suf s"

text \<open>\<^verbatim>\<open>s.split(sep)[-1]\<close> for a one-character separator: what follows the last separator,
  the whole string when there is none.\<close>

definition split_last :: "char \<Rightarrow> string \<Rightarrow> string" where
  "split_last sep s = rev (takeWhile (\<lambda>c. c \<noteq> sep) (rev s))"

text \<open>\<^verbatim>\<open>str.isspace\<close> on one character and \<^verbatim>\<open>s.strip()\<close>.\<close>

definition isspace :: "char \<Rightarrow> bool" where
  "isspace c = (of_char c \<in> {9, 10, 11, 12, 13, 28, 29, 30, 31, 32, 133, 160 :: nat})"

definition strip :: "string \<Rightarrow> string" where
  "strip s = rev (dropWhile isspace (rev (dropWhile isspace s)))"

text \<open>\<^verbatim>\<open>s.replace(old, new)\<close>: every non-overlapping occurrence, from the left. The counter
  is the number of characters of a matched occurrence still to be skipped.\<close>

fun replace_from :: "string \<Rightarrow> string \<Rightarrow> nat \<Rightarrow> string \<Rightarrow> string" where
  "replace_from old new k [] = []"
| "replace_from old new k (c # cs) =
     (if 0 < k then replace_from old new (k - 1) cs
      else if prefix old (c # cs) then new @ replace_from old new (length old - 1) cs
      else c # replace_from old new 0 cs)"

definition py_replace :: "string \<Rightarrow> string \<Rightarrow> string \<Rightarrow> string" where
  "py_replace old new s =
     (if old = [] then new @ concat (map (\<lambda>c. c # new) s) else replace_from old new 0 s)"

text \<open>\<^verbatim>\<open>os.path.basename\<close> and \<^verbatim>\<open>os.path.dirname\<close> (posixpath).\<close>

definition basename :: "string \<Rightarrow> string" where
  "basename p = split_last (CHR ''/'') p"

definition dirname :: "string \<Rightarrow> string" where
  "dirname p =
     (let head = take (length p - length (basename p)) p
      in if head \<noteq> [] \<and> \<not> list_all (\<lambda>c. c = CHR ''/'') head
         then rev (dropWhile (\<lambda>c. c = CHR ''/'') (rev head)) else head)"

text \<open>The methods \<^verbatim>\<open>split\<close> and \<^verbatim>\<open>replace\<close> exist on strings only.\<close>

definition json_split_last :: "char \<Rightarrow> json \<Rightarrow> py_error + string" where
  "json_split_last sep j = (case j of JStr s \<Rightarrow> Inr (split_last sep s) | _ \<Rightarrow> Inl AttributeError)"

definition json_replace :: "string \<Rightarrow> string \<Rightarrow> json \<Rightarrow> py_error + json" where
  "json_replace old new j =
     (case j of JStr s \<Rightarrow> Inr (JStr (py_replace old new s)) | _ \<Rightarrow> Inl AttributeError)"

subsection \<open>The remote service, the file system and the log\<close>

text \<open>
  One constructor per URL of the script; the values interpolated into the URL and the
  payload are its arguments. The base URL and the \<^verbatim>\<open>access_token\<close> parameter are the same
  on every call and are left out, as are the headers.
\<close>

datatype request =
    GetSearch "(string \<times> string) list"
  | PostNewVersion json
  | GetDeposition json
  | PostDeposition
  | PutBucket json string string
  | PutMetadata json json
  | PostPublish json

text \<open>A response: the status code, and the decoded body (\<open>None\<close> when the body is not JSON,
  so that \<^verbatim>\<open>response.json()\<close> raises).\<close>

datatype response = Response (status_code: int) (body: "json option")

text \<open>The calls of the script's own functions, with their arguments.\<close>

datatype call =
    CallSearch string "string option"
  | CallCreateNewVersion json
  | CallCreateNewDeposition
  | CallUpload json string json json string string
  | CallAddMetaData json json
  | CallPublish json

text \<open>The log: every function call at its entry, and every HTTP exchange with what came
  back (\<open>None\<close> when the transport raised instead of answering).\<close>

datatype event = Call call | Http request "response option"

type_synonym 's world = "'s \<times> event list"

record 's env =
  server :: "'s \<Rightarrow> request \<Rightarrow> response option \<times> 's"
  abspath :: "string \<Rightarrow> string"
  isfile :: "string \<Rightarrow> bool"
  read_text :: "string \<Rightarrow> string option"
  read_bytes :: "string \<Rightarrow> string option"

type_synonym ('s, 'a) prog = "'s world \<Rightarrow> (py_error + 'a) \<times> 's world"

definition trace :: "'s world \<Rightarrow> event list" where
  "trace w = snd w"

definition ret :: "'a \<Rightarrow> ('s, 'a) prog" where
  "ret x = (\<lambda>w. (Inr x, w))"

definition lift :: "py_error + 'a \<Rightarrow> ('s, 'a) prog" where
  "lift r = (\<lambda>w. (r, w))"

definition bind :: "('s, 'a) prog \<Rightarrow> ('a \<Rightarrow> ('s, 'b) prog) \<Rightarrow> ('s, 'b) prog" where
  "bind m f = (\<lambda>w. case m w of (Inl e, w') \<Rightarrow> (Inl e, w') | (Inr x, w') \<Rightarrow> f x w')"

definition log_call :: "call \<Rightarrow> ('s, unit) prog" where
  "log_call c = (\<lambda>w. (Inr (), (fst w, snd w @ [Call c])))"

text \<open>\<^verbatim>\<open>requests.get\<close>, \<^verbatim>\<open>requests.post\<close>, \<^verbatim>\<open>requests.put\<close>.\<close>

definition http :: "'s env \<Rightarrow> request \<Rightarrow> ('s, response) prog" where
  "http E rq = (\<lambda>w. case server E (fst w) rq of
      (None, s') \<Rightarrow> (Inl ConnectionError, (s', snd w @ [Http rq None]))
    | (Some r, s') \<Rightarrow> (Inr r, (s', snd w @ [Http rq (Some r)])))"

text \<open>\<^verbatim>\<open>Response.raise_for_status\<close> raises on the 4xx and 5xx codes.\<close>

definition raise_for_status :: "response \<Rightarrow> py_error + unit" where
  "raise_for_status r =
     (if 400 \<le> status_code r \<and> status_code r < 600 then Inl (HTTPError (status_code r))
      else Inr ())"

definition response_json :: "response \<Rightarrow> py_error + json" where
  "response_json r = (case body r of None \<Rightarrow> Inl JSONDecodeError | Some j \<Rightarrow> Inr j)"

subsection \<open>\<^verbatim>\<open>sorted(..., key=..., reverse=True)\<close>\<close>

text \<open>
  The keys are computed first. The list is reversed, sorted stably in ascending order and
  reversed again. Strings compare with strings and integers (booleans included) with
  integers; with two or more elements any other combination raises \<^verbatim>\<open>TypeError\<close>, and a
  list of at most one element is never compared. Keys that are all lists are outside this
  model.
\<close>

fun is_str :: "json \<Rightarrow> bool" where
  "is_str (JStr s) = True"
| "is_str _ = False"

fun str_of :: "json \<Rightarrow> string" where
  "str_of (JStr s) = s"
| "str_of _ = []"

fun is_num :: "json \<Rightarrow> bool" where
  "is_num (JInt i) = True"
| "is_num (JBool b) = True"
| "is_num _ = False"

fun num_of :: "json \<Rightarrow> int" where
  "num_of (JInt i) = i"
| "num_of (JBool b) = (if b then 1 else 0)"
| "num_of _ = 0"

fun is_arr :: "json \<Rightarrow> bool" where
  "is_arr (JArr xs) = True"
| "is_arr _ = False"

definition sorted_reverse :: "(json \<times> 'a) list \<Rightarrow> py_error + 'a list" where
  "sorted_reverse kxs =
     (if length kxs \<le> 1 then Inr (map snd kxs)
      else if list_all (\<lambda>kx. is_str (fst kx)) kxs
        then Inr (map snd (rev (sort_key (\<lambda>kx. str_of (fst kx)) (rev kxs))))
      else if list_all (\<lambda>kx. is_num (fst kx)) kxs
        then Inr (map snd (rev (sort_key (\<lambda>kx. num_of (fst kx)) (rev kxs))))
      else if list_all (\<lambda>kx. is_arr (fst kx)) kxs then Inl NotModelled
      else Inl TypeError)"

subsection \<open>\<^verbatim>\<open>search_for_deposition\<close>\<close>

type_synonym handle = "json \<times> json \<times> json"

definition none3 :: handle where
  "none3 = (JNull, JNull, JNull)"

text \<open>Lines 21 to 26: the search string.\<close>

definition search_query :: "string \<Rightarrow> string option \<Rightarrow> string" where
  "search_query title owner =
     py_replace ''/'' '' ''
       (''metadata.title:'' @ [CHR 0x22] @ title @ [CHR 0x22] @
        (case owner of None \<Rightarrow> [] | Some ow \<Rightarrow> if ow \<noteq> [] then '' owners:'' @ ow else []))"

text \<open>\<^verbatim>\<open>deposition["owner"] == owner\<close>, where \<^verbatim>\<open>owner\<close> is a string or \<^verbatim>\<open>None\<close>.\<close>

definition owner_json :: "string option \<Rightarrow> json" where
  "owner_json owner = (case owner of None \<Rightarrow> JNull | Some ow \<Rightarrow> JStr ow)"

definition dep_title :: "json \<Rightarrow> py_error + json" where
  "dep_title d = ebind (get_item d ''metadata'') (\<lambda>m. get_item m ''title'')"

definition dep_owner :: "json \<Rightarrow> py_error + json" where
  "dep_owner d = get_item d ''owner''"

definition dep_publication_date :: "json \<Rightarrow> py_error + json" where
  "dep_publication_date d = ebind (get_item d ''metadata'') (\<lambda>m. get_item m ''publication_date'')"

text \<open>Lines 61 to 64: the condition of the filter; the owner is looked at only when the
  title differs.\<close>

definition keeps :: "string \<Rightarrow> string option \<Rightarrow> json \<Rightarrow> py_error + bool" where
  "keeps title owner d =
     ebind (dep_title d) (\<lambda>t.
       if t = JStr title then Inr True
       else ebind (dep_owner d) (\<lambda>ow. Inr (ow = owner_json owner)))"

text \<open>Lines 59 to 65: the loop that collects the candidates.\<close>

fun filter_depositions ::
  "string \<Rightarrow> string option \<Rightarrow> json list \<Rightarrow> json list \<Rightarrow> py_error + json list" where
  "filter_depositions title owner depositions [] = Inr depositions"
| "filter_depositions title owner depositions (d # records) =
     ebind (keeps title owner d) (\<lambda>k.
       filter_depositions title owner (if k then depositions @ [d] else depositions) records)"

text \<open>Lines 71 to 75: the latest candidate.\<close>

definition latest_deposition :: "json list \<Rightarrow> py_error + json" where
  "latest_deposition depositions =
     ebind (emap dep_publication_date depositions) (\<lambda>keys.
     ebind (sorted_reverse (zip keys depositions)) (\<lambda>sorted.
       case sorted of [] \<Rightarrow> Inl IndexError | d # _ \<Rightarrow> Inr d))"

text \<open>The triple that the three functions returning a deposition build from it.\<close>

definition handle_of :: "json \<Rightarrow> py_error + handle" where
  "handle_of deposition =
     ebind (get_item deposition ''id'') (\<lambda>i.
     ebind (ebind (get_item deposition ''links'') (\<lambda>l. get_item l ''bucket'')) (\<lambda>b.
     ebind (ebind (get_item deposition ''links'') (\<lambda>l. get_item l ''html'')) (\<lambda>h.
     ebind (json_replace ''deposit'' ''record'' h) (\<lambda>u. Inr (i, b, u)))))"

text \<open>Lines 37 to 45, the part of the \<^verbatim>\<open>try\<close> block after the request.\<close>

definition search_records :: "response \<Rightarrow> py_error + json list" where
  "search_records r =
     ebind (response_json r) (\<lambda>response_json.
       if status_code r \<noteq> 200 then Inl RuntimeError else py_iter response_json)"

text \<open>Lines 53 to 86.\<close>

definition choose_deposition :: "string \<Rightarrow> string option \<Rightarrow> json list \<Rightarrow> py_error + handle" where
  "choose_deposition title owner records =
     (if records = [] then Inr none3
      else ebind (filter_depositions title owner [] records) (\<lambda>depositions.
        if depositions = [] then Inr none3
        else ebind (latest_deposition depositions) handle_of))"

definition search_for_deposition :: "'s env \<Rightarrow> string \<Rightarrow> string option \<Rightarrow> ('s, handle) prog" where
  "search_for_deposition E title owner =
     bind (log_call (CallSearch title owner)) (\<lambda>_. \<lambda>w.
       case http E (GetSearch [(''q'', search_query title owner), (''sort'', ''mostrecent'')]) w of
         (Inl e, w') \<Rightarrow> (Inr none3, w')
       | (Inr r, w') \<Rightarrow>
           (case search_records r of
              Inl e \<Rightarrow> (Inr none3, w')
            | Inr records \<Rightarrow> (choose_deposition title owner records, w')))"

subsection \<open>\<^verbatim>\<open>create_new_version\<close>, \<^verbatim>\<open>create_new_deposition\<close>\<close>

definition create_new_version :: "'s env \<Rightarrow> json \<Rightarrow> ('s, handle) prog" where
  "create_new_version E deposition_id =
     bind (log_call (CallCreateNewVersion deposition_id)) (\<lambda>_.
     bind (http E (PostNewVersion deposition_id)) (\<lambda>r.
     bind (lift (raise_for_status r)) (\<lambda>_.
     bind (lift (response_json r)) (\<lambda>deposition.
     bind (lift (ebind (get_item deposition ''links'') (\<lambda>l. get_item l ''latest_draft'')))
       (\<lambda>new_deposition_url.
     bind (lift (json_split_last (CHR ''/'') new_deposition_url)) (\<lambda>new_deposition_id.
     bind (http E (GetDeposition (JStr new_deposition_id))) (\<lambda>r.
     bind (lift (raise_for_status r)) (\<lambda>_.
     bind (lift (response_json r)) (\<lambda>deposition.
     lift (handle_of deposition))))))))))"

definition create_new_deposition :: "'s env \<Rightarrow> ('s, handle) prog" where
  "create_new_deposition E =
     bind (log_call CallCreateNewDeposition) (\<lambda>_.
     bind (http E PostDeposition) (\<lambda>r.
     bind (lift (raise_for_status r)) (\<lambda>_.
     bind (lift (response_json r)) (\<lambda>deposition.
     lift (handle_of deposition)))))"

subsection \<open>\<^verbatim>\<open>upload_to_zenodo\<close>\<close>

text \<open>Lines 160 to 162: the checksums stored with the deposition.\<close>

definition files_checksums :: "json \<Rightarrow> py_error + json list" where
  "files_checksums deposition =
     ebind (get_item deposition ''files'') (\<lambda>fs.
     ebind (py_iter fs) (emap (\<lambda>file. get_item file ''checksum'')))"

text \<open>Line 163: where the checksum of the archive is expected.\<close>

definition md5sum_file :: "string \<Rightarrow> string \<Rightarrow> string" where
  "md5sum_file filename env_name = dirname filename @ ''/'' @ env_name @ ''-md5sum.txt''"

text \<open>Line 166.\<close>

definition current_file_checksum :: "string \<Rightarrow> string" where
  "current_file_checksum content = strip (split_last (CHR ''='') content)"

text \<open>Lines 152 to 175: whether the archive is already stored.\<close>

definition already_uploaded :: "'s env \<Rightarrow> json \<Rightarrow> string \<Rightarrow> string \<Rightarrow> ('s, bool) prog" where
  "already_uploaded E deposition_id filename env_name =
     bind (http E (GetDeposition deposition_id)) (\<lambda>r.
     bind (lift (raise_for_status r)) (\<lambda>_.
     bind (lift (ebind (response_json r) files_checksums)) (\<lambda>checksums.
       case read_text E (md5sum_file filename env_name) of
         None \<Rightarrow> lift (Inl (OSError (md5sum_file filename env_name)))
       | Some content \<Rightarrow> ret (JStr (current_file_checksum content) \<in> set checksums))))"

definition upload_to_zenodo ::
  "'s env \<Rightarrow> json \<Rightarrow> string \<Rightarrow> json \<Rightarrow> json \<Rightarrow> string \<Rightarrow> string \<Rightarrow> ('s, unit) prog" where
  "upload_to_zenodo E deposition_id filename bucket_url file_url filebase env_name =
     bind (log_call (CallUpload deposition_id filename bucket_url file_url filebase env_name)) (\<lambda>_.
     bind (if endswith filename ''.tar.gz''
           then already_uploaded E deposition_id filename env_name else ret False) (\<lambda>skip.
       if skip then ret ()
       else (case read_bytes E filename of
               None \<Rightarrow> lift (Inl (OSError filename))
             | Some fp \<Rightarrow>
                 bind (http E (PutBucket bucket_url filebase fp)) (\<lambda>r.
                 lift (raise_for_status r)))))"

subsection \<open>\<^verbatim>\<open>add_meta_data\<close>, \<^verbatim>\<open>publish_file\<close>\<close>

definition add_meta_data :: "'s env \<Rightarrow> json \<Rightarrow> json \<Rightarrow> ('s, unit) prog" where
  "add_meta_data E deposition_id meta_data =
     bind (log_call (CallAddMetaData deposition_id meta_data)) (\<lambda>_.
     bind (http E (PutMetadata deposition_id meta_data)) (\<lambda>r.
     lift (raise_for_status r)))"

definition publish_file :: "'s env \<Rightarrow> json \<Rightarrow> ('s, unit) prog" where
  "publish_file E deposition_id =
     bind (log_call (CallPublish deposition_id)) (\<lambda>_.
     bind (http E (PostPublish deposition_id)) (\<lambda>r.
     lift (raise_for_status r)))"

subsection \<open>The script, from line 274\<close>

text \<open>
  The arguments are what the lines before have read: the files and the publish flag of the
  command line, the owner of the environment, and the title, the metadata and the
  environment name of the configuration file.
\<close>

record args =
  files_to_upload :: "string list"
  publish :: bool
  owner_id :: string
  config_title :: string
  config_meta_data :: json
  config_env_name :: string

text \<open>Lines 285 to 307: the loop of the branch that created a deposition.\<close>

fun creation_loop :: "'s env \<Rightarrow> args \<Rightarrow> handle \<Rightarrow> string list \<Rightarrow> ('s, unit) prog" where
  "creation_loop E A h [] = ret ()"
| "creation_loop E A h (file # files) =
     (let filename = abspath E file; filebase = basename filename
      in if \<not> isfile E filename then lift (Inl (FileNotFoundError filename))
         else
           bind (upload_to_zenodo E (fst h) file (fst (snd h)) (snd (snd h)) filebase (config_env_name A))
             (\<lambda>_.
           bind (add_meta_data E (fst h) (config_meta_data A)) (\<lambda>_.
           creation_loop E A h files)))"

text \<open>Lines 312 to 333: the loop of the branch that found a deposition. The triple is
  assigned anew in every pass.\<close>

fun version_loop :: "'s env \<Rightarrow> args \<Rightarrow> handle \<Rightarrow> string list \<Rightarrow> ('s, handle) prog" where
  "version_loop E A h [] = ret h"
| "version_loop E A h (file # files) =
     (let filename = abspath E file; filebase = basename filename
      in if \<not> isfile E filename then lift (Inl (FileNotFoundError filename))
         else
           bind (create_new_version E (fst h)) (\<lambda>h'.
           bind (upload_to_zenodo E (fst h') file (fst (snd h')) (snd (snd h')) filebase (config_env_name A))
             (\<lambda>_.
           version_loop E A h' files)))"

definition main :: "'s env \<Rightarrow> args \<Rightarrow> ('s, unit) prog" where
  "main E A =
     bind (search_for_deposition E (config_title A) (Some (owner_id A))) (\<lambda>h.
       if \<not> truthy (fst h) then
         bind (create_new_deposition E) (\<lambda>h.
         bind (creation_loop E A h (files_to_upload A)) (\<lambda>_.
           if publish A then publish_file E (fst h) else ret ()))
       else
         bind (version_loop E A h (files_to_upload A)) (\<lambda>h.
           if publish A then publish_file E (fst h) else ret ()))"

subsection \<open>Notions used to state the properties\<close>

text \<open>A candidate of the search matches the title, or the owner, when the field is there
  and equal.\<close>

definition title_matches :: "string \<Rightarrow> json \<Rightarrow> bool" where
  "title_matches title d = (dep_title d = Inr (JStr title))"

definition owner_matches :: "string option \<Rightarrow> json \<Rightarrow> bool" where
  "owner_matches owner d = (dep_owner d = Inr (owner_json owner))"



text \<open>Events of the log, by kind.\<close>

definition is_new_version_call :: "event \<Rightarrow> bool" where
  "is_new_version_call e = (case e of Call (CallCreateNewVersion i) \<Rightarrow> True | _ \<Rightarrow> False)"

text \<open>The events a program adds to the log all satisfy a property.\<close>

definition emits :: "(event \<Rightarrow> bool) \<Rightarrow> ('s, 'a) prog \<Rightarrow> bool" where
  "emits P m = (\<forall>w. \<exists>T. snd (snd (m w)) = snd w @ T \<and> list_all P T)"

text \<open>The function calls of a log, in order.\<close>

definition calls :: "event list \<Rightarrow> call list" where
  "calls tr = concat (map (\<lambda>e. case e of Call c \<Rightarrow> [c] | Http rq rsp \<Rightarrow> []) tr)"

definition is_http :: "event \<Rightarrow> bool" where
  "is_http e = (case e of Http rq rsp \<Rightarrow> True | Call c \<Rightarrow> False)"

text \<open>
  One pass of the loop of the branch that found a deposition, as it shows in the log of a
  run that went through: the answer to the new-version request, the name of the draft
  taken from that answer, the answer to the request that fetches the draft, the triple
  read from it, and the exchanges of the upload.
\<close>

record pass =
  pass_post :: response
  pass_name :: string
  pass_get :: response
  pass_draft :: handle
  pass_upload :: "event list"

text \<open>Lines 102 to 104: the last segment of the \<^verbatim>\<open>latest_draft\<close> link.\<close>

definition latest_draft_name :: "response \<Rightarrow> py_error + string" where
  "latest_draft_name r =
     ebind (response_json r) (\<lambda>deposition.
     ebind (ebind (get_item deposition ''links'') (\<lambda>l. get_item l ''latest_draft''))
       (json_split_last (CHR ''/'')))"

definition pass_ok :: "pass \<Rightarrow> bool" where
  "pass_ok p =
     (latest_draft_name (pass_post p) = Inr (pass_name p)
      \<and> ebind (response_json (pass_get p)) handle_of = Inr (pass_draft p)
      \<and> list_all is_http (pass_upload p))"

text \<open>The log of the passes, the first new version being asked of deposition \<open>i\<close> and
  each later one of the draft of the pass before.\<close>

fun version_log :: "'s env \<Rightarrow> args \<Rightarrow> json \<Rightarrow> (string \<times> pass) list \<Rightarrow> event list" where
  "version_log E A i [] = []"
| "version_log E A i ((file, p) # rest) =
     [Call (CallCreateNewVersion i),
      Http (PostNewVersion i) (Some (pass_post p)),
      Http (GetDeposition (JStr (pass_name p))) (Some (pass_get p)),
      Call (CallUpload (fst (pass_draft p)) file (fst (snd (pass_draft p)))
        (snd (snd (pass_draft p))) (basename (abspath E file)) (config_env_name A))]
     @ pass_upload p
     @ version_log E A (fst (pass_draft p)) rest"

text \<open>What the log says of the calls: the ids new versions were asked of, the ids and
  the files of the uploads, the ids published.\<close>

fun new_version_id :: "event \<Rightarrow> json list" where
  "new_version_id (Call (CallCreateNewVersion i)) = [i]"
| "new_version_id _ = []"

fun upload_id :: "event \<Rightarrow> json list" where
  "upload_id (Call (CallUpload i fn b u fb en)) = [i]"
| "upload_id _ = []"

fun upload_file :: "event \<Rightarrow> string list" where
  "upload_file (Call (CallUpload i fn b u fb en)) = [fn]"
| "upload_file _ = []"

fun publish_id :: "event \<Rightarrow> json list" where
  "publish_id (Call (CallPublish i)) = [i]"
| "publish_id _ = []"

definition new_version_ids :: "event list \<Rightarrow> json list" where
  "new_version_ids tr = concat (map new_version_id tr)"

definition upload_ids :: "event list \<Rightarrow> json list" where
  "upload_ids tr = concat (map upload_id tr)"

definition uploaded_files :: "event list \<Rightarrow> string list" where
  "uploaded_files tr = concat (map upload_file tr)"

definition publish_ids :: "event list \<Rightarrow> json list" where
  "publish_ids tr = concat (map publish_id tr)"

text \<open>Two events in a row: a call of the upload comes right after the fetch of a
  deposition, and targets the id, the bucket and the record URL read from that answer.\<close>

fun upload_follows_fetch :: "event \<Rightarrow> event \<Rightarrow> bool" where
  "upload_follows_fetch (Http (GetDeposition nid) (Some r)) (Call (CallUpload i fn b u fb en)) =
     (ebind (response_json r) handle_of = Inr (i, b, u))"
| "upload_follows_fetch prev (Call (CallUpload i fn b u fb en)) = False"
| "upload_follows_fetch prev e = True"

text \<open>The end of the log: the publish call and its request, when asked for.\<close>

definition publish_log :: "bool \<Rightarrow> json \<Rightarrow> response option \<Rightarrow> event list" where
  "publish_log p i rsp = (if p then [Call (CallPublish i), Http (PostPublish i) rsp] else [])"

text \<open>
  An exchange that \<^verbatim>\<open>raise_for_status\<close> turns into an exception: a request other than the
  search, answered with a 4xx or 5xx status. A log is in order when it holds none; a
  program fails fast when the events it adds are in order, or are in order up to a last
  such exchange and the program ends with the \<^verbatim>\<open>HTTPError\<close> of its status.
\<close>

fun fatal_exchange :: "event \<Rightarrow> bool" where
  "fatal_exchange (Http (GetSearch ps) rsp) = False"
| "fatal_exchange (Http rq (Some r)) = (400 \<le> status_code r \<and> status_code r < 600)"
| "fatal_exchange e = False"

fun exchange_status :: "event \<Rightarrow> int" where
  "exchange_status (Http rq (Some r)) = status_code r"
| "exchange_status e = 0"

definition ok_log :: "event list \<Rightarrow> bool" where
  "ok_log T = list_all (\<lambda>e. \<not> fatal_exchange e) T"

definition error_of :: "py_error + 'a \<Rightarrow> py_error option" where
  "error_of r = (case r of Inl e \<Rightarrow> Some e | Inr x \<Rightarrow> None)"

definition aborted :: "py_error option \<Rightarrow> event list \<Rightarrow> bool" where
  "aborted r T = (\<exists>pre e. T = pre @ [e] \<and> ok_log pre \<and> fatal_exchange e
      \<and> r = Some (HTTPError (exchange_status e)))"

definition fail_fast :: "('s, 'a) prog \<Rightarrow> bool" where
  "fail_fast m = (\<forall>w. \<exists>T. snd (snd (m w)) = snd w @ T \<and> (ok_log T \<or> aborted (error_of (fst (m w))) T))"

subsection \<open>An example service\<close>

text \<open>A search result with a title and an owner, for the examples.\<close>

definition candidate :: "string \<Rightarrow> json \<Rightarrow> json" where
  "candidate t ow = JObj [(''metadata'', JObj [(''title'', JStr t)]), (''owner'', ow)]"


text \<open>
  A small service for the examples. A deposition as the service returns it; the service
  answers every request, knows the depositions 1, 2, 3 and 7, and counts the requests.
\<close>

definition deposit :: "int \<Rightarrow> string \<Rightarrow> string \<Rightarrow> json" where
  "deposit i name next_name = JObj
     [(''id'', JInt i),
      (''owner'', JInt 5),
      (''metadata'', JObj [(''title'', JStr ''T''), (''publication_date'', JStr ''2024-03-01'')]),
      (''links'', JObj
         [(''bucket'', JStr (''https://z/api/files/'' @ name)),
          (''html'', JStr (''https://z/deposit/'' @ name)),
          (''latest_draft'', JStr (''https://z/api/deposit/depositions/'' @ next_name))]),
      (''files'', JArr [JObj [(''filename'', JStr ''old.tar.gz''), (''checksum'', JStr ''abc'')]])]"

definition demo_respond :: "bool \<Rightarrow> request \<Rightarrow> response" where
  "demo_respond found rq = (case rq of
      GetSearch ps \<Rightarrow> Response 200 (Some (JArr (if found then [deposit 1 ''1'' ''1''] else [])))
    | PostNewVersion i \<Rightarrow>
        (if i = JInt 1 then Response 201 (Some (deposit 1 ''1'' ''2''))
         else if i = JInt 2 then Response 201 (Some (deposit 2 ''2'' ''3''))
         else Response 404 (Some (JObj [(''message'', JStr ''not found'')])))
    | GetDeposition i \<Rightarrow>
        (if i = JStr ''2'' \<or> i = JInt 2 then Response 200 (Some (deposit 2 ''2'' ''2''))
         else if i = JStr ''3'' \<or> i = JInt 3 then Response 200 (Some (deposit 3 ''3'' ''3''))
         else if i = JInt 7 then Response 200 (Some (deposit 7 ''7'' ''7''))
         else Response 404 (Some (JObj [(''message'', JStr ''not found'')])))
    | PostDeposition \<Rightarrow> Response 201 (Some (deposit 7 ''7'' ''7''))
    | PutBucket b f d \<Rightarrow> Response 201 (Some (JObj []))
    | PutMetadata i m \<Rightarrow> Response 200 (Some (JObj []))
    | PostPublish i \<Rightarrow> Response 202 (Some (JObj [])))"

definition demo_env :: "bool \<Rightarrow> nat env" where
  "demo_env found =
     \<lparr> server = (\<lambda>n rq. (Some (demo_respond found rq), Suc n)),
       abspath = (\<lambda>p. ''/w/'' @ p),
       isfile = (\<lambda>p. p \<in> set [''/w/data/e.tar.gz'', ''/w/data/new.tar.gz'', ''/w/report.txt'']),
       read_text = (\<lambda>p. if p = ''data/env-md5sum.txt'' then Some (''md5=abc'' @ [CHR 0x0A]) else None),
       read_bytes = (\<lambda>p. if p \<in> set [''data/e.tar.gz'', ''report.txt''] then Some ''bytes'' else None) \<rparr>"

text \<open>The arguments of the examples: the files and the publish flag vary.\<close>

definition demo_args :: "string list \<Rightarrow> bool \<Rightarrow> args" where
  "demo_args files pub =
     \<lparr> files_to_upload = files, publish = pub, owner_id = ''5'', config_title = ''T'',
       config_meta_data = JObj [(''metadata'', JObj [(''title'', JStr ''T'')])],
       config_env_name = ''env'' \<rparr>"

text \<open>The example service, with a given status for every upload into a bucket.\<close>

definition put_status_env :: "int \<Rightarrow> nat env" where
  "put_status_env st = (demo_env True)
     \<lparr> server := (\<lambda>n rq. case rq of
          PutBucket b f d \<Rightarrow> (Some (Response st (Some (JObj []))), Suc n)
        | _ \<Rightarrow> server (demo_env True) n rq) \<rparr>"

section \<open>Properties\<close>

subsection \<open>The search string\<close>

lemma replace_from_single:
  "replace_from [c] [d] 0 s = map (\<lambda>x. if x = c then d else x) s"
  by (induction s) auto

lemma py_replace_single:
  "py_replace [c] [d] s = map (\<lambda>x. if x = c then d else x) s"
  by (simp add: py_replace_def replace_from_single)

lemma search_query_map:
  "search_query title owner = map (\<lambda>c. if c = CHR ''/'' then CHR '' '' else c)
       (''metadata.title:'' @ [CHR 0x22] @ title @ [CHR 0x22] @
        (case owner of None \<Rightarrow> [] | Some ow \<Rightarrow> if ow \<noteq> [] then '' owners:'' @ ow else []))"
  unfolding search_query_def by (rule py_replace_single)

text \<open>
  C8. Whatever the title and the owner, the search logs its call and then exactly one request,
  whose \<open>q\<close> parameter is the search string with every slash replaced by a space: the string
  sent is the string built from the title and the owner, mapped character by character,
  and it contains no slash.
\<close>

theorem search_query_replaces_slashes:
  "(\<exists>rsp. trace (snd (search_for_deposition E title owner w)) =
      trace w @ [Call (CallSearch title owner),
                 Http (GetSearch [(''q'', search_query title owner), (''sort'', ''mostrecent'')]) rsp])
   \<and> search_query title owner =
       map (\<lambda>c. if c = CHR ''/'' then CHR '' '' else c)
         (''metadata.title:'' @ [CHR 0x22] @ title @ [CHR 0x22] @
          (case owner of None \<Rightarrow> [] | Some ow \<Rightarrow> if ow \<noteq> [] then '' owners:'' @ ow else []))
   \<and> CHR ''/'' \<notin> set (search_query title owner)"
proof -
  have q: "CHR ''/'' \<notin> set (search_query title owner)"
    unfolding search_query_map by auto
  have t: "\<exists>rsp. trace (snd (search_for_deposition E title owner w)) =
      trace w @ [Call (CallSearch title owner),
                 Http (GetSearch [(''q'', search_query title owner), (''sort'', ''mostrecent'')]) rsp]"
    by (auto simp: search_for_deposition_def bind_def log_call_def http_def trace_def
        split: prod.splits sum.splits option.splits)
  show ?thesis using q t search_query_map by blast
qed

subsection \<open>The filter\<close>

lemma keeps_Inr:
  "keeps title owner d = Inr k \<Longrightarrow> k = (title_matches title d \<or> owner_matches owner d)"
  by (auto simp: keeps_def ebind_def title_matches_def owner_matches_def
      split: sum.splits if_splits)

lemma keeps_total:
  "dep_title d = Inr t \<Longrightarrow> dep_owner d = Inr ow \<Longrightarrow> \<exists>k. keeps title owner d = Inr k"
  by (auto simp: keeps_def ebind_def)

lemma filter_depositions_Inr:
  "filter_depositions title owner acc records = Inr ds \<Longrightarrow>
   ds = acc @ filter (\<lambda>d. title_matches title d \<or> owner_matches owner d) records"
proof (induction records arbitrary: acc)
  case Nil
  then show ?case by simp
next
  case (Cons d records)
  from Cons.prems obtain k where k: "keeps title owner d = Inr k"
    and rest: "filter_depositions title owner (if k then acc @ [d] else acc) records = Inr ds"
    by (auto simp: ebind_def split: sum.splits)
  from keeps_Inr [OF k] Cons.IH [OF rest] show ?case by auto
qed

lemma filter_depositions_total:
  "(\<And>d. d \<in> set records \<Longrightarrow> \<exists>t ow. dep_title d = Inr t \<and> dep_owner d = Inr ow) \<Longrightarrow>
   \<exists>ds. filter_depositions title owner acc records = Inr ds"
proof (induction records arbitrary: acc)
  case Nil
  then show ?case by simp
next
  case (Cons d records)
  from Cons.prems [of d] obtain k where k: "keeps title owner d = Inr k"
    using keeps_total by fastforce
  have "\<exists>ds. filter_depositions title owner (if k then acc @ [d] else acc) records = Inr ds"
    using Cons.prems by (intro Cons.IH) auto
  with k show ?case by (simp add: ebind_def)
qed

text \<open>
  C4. The filter is an inclusive or. Whenever the loop over the search results ends without
  an exception, it has kept, in their order, exactly the results whose title equals the
  title asked for or whose owner equals the owner given; and it does end so when every
  result carries a title and an owner.
\<close>

theorem filter_is_inclusive_or:
  "(filter_depositions title owner [] records = Inr ds \<longrightarrow>
      ds = filter (\<lambda>d. title_matches title d \<or> owner_matches owner d) records)
   \<and> ((\<forall>d \<in> set records. \<exists>t ow. dep_title d = Inr t \<and> dep_owner d = Inr ow) \<longrightarrow>
      filter_depositions title owner [] records =
        Inr (filter (\<lambda>d. title_matches title d \<or> owner_matches owner d) records))"
proof (intro conjI impI)
  assume "filter_depositions title owner [] records = Inr ds"
  from filter_depositions_Inr [OF this]
  show "ds = filter (\<lambda>d. title_matches title d \<or> owner_matches owner d) records" by simp
next
  assume "\<forall>d \<in> set records. \<exists>t ow. dep_title d = Inr t \<and> dep_owner d = Inr ow"
  then obtain ds where ds: "filter_depositions title owner [] records = Inr ds"
    using filter_depositions_total [of records title owner "[]"] by blast
  from filter_depositions_Inr [OF ds] ds
  show "filter_depositions title owner [] records =
        Inr (filter (\<lambda>d. title_matches title d \<or> owner_matches owner d) records)" by simp
qed

lemma cand_title: "dep_title (candidate t ow) = Inr (JStr t)"
  by (simp add: dep_title_def candidate_def ebind_def)

lemma cand_owner: "dep_owner (candidate t ow) = Inr ow"
  by (simp add: dep_owner_def candidate_def)

text \<open>A title match under another owner and an owner match under another title are kept;
  a result that matches neither is dropped.\<close>

theorem filter_is_inclusive_or_witness:
  "filter_depositions ''T'' (Some ''7'') []
     [candidate ''T'' (JStr ''8''), candidate ''U'' (JStr ''7''), candidate ''U'' (JStr ''8'')]
   = Inr [candidate ''T'' (JStr ''8''), candidate ''U'' (JStr ''7'')]"
proof -
  let ?rs = "[candidate ''T'' (JStr ''8''), candidate ''U'' (JStr ''7''), candidate ''U'' (JStr ''8'')]"
  have h: "\<forall>d \<in> set ?rs. \<exists>t ow. dep_title d = Inr t \<and> dep_owner d = Inr ow"
    by (simp add: cand_title cand_owner)
  from filter_is_inclusive_or [of "''T''" "Some ''7''" ?rs "[]"] h
  show ?thesis
    by (simp add: title_matches_def owner_matches_def owner_json_def cand_title cand_owner)
qed

subsection \<open>The latest candidate\<close>













subsection \<open>The upload of one file\<close>

lemma split_last_after:
  "sep \<notin> set x \<Longrightarrow> split_last sep (label @ sep # x) = x"
proof -
  assume "sep \<notin> set x"
  then have "takeWhile (\<lambda>c. c \<noteq> sep) (rev x @ sep # rev label) = rev x"
    by (subst takeWhile_append2) auto
  then show ?thesis by (simp add: split_last_def)
qed

text \<open>
  C2. For a file whose name ends in \<^verbatim>\<open>.tar.gz\<close>: when the deposition is fetched without
  an HTTP error, its files carry checksums, the sidecar file can be read and the checksum
  read from it is among the stored ones, the upload returns without error after the fetch
  and sends no PUT. The checksum read is what follows the last \<open>=\<close> of the content,
  stripped of surrounding white space.
\<close>

theorem upload_skips_known_checksum:
  assumes "endswith filename ''.tar.gz''"
    and "server E (fst w) (GetDeposition deposition_id) = (Some r, s')"
    and "\<not> (400 \<le> status_code r \<and> status_code r < 600)"
    and "ebind (response_json r) files_checksums = Inr checksums"
    and "read_text E (md5sum_file filename env_name) = Some content"
    and "JStr (current_file_checksum content) \<in> set checksums"
  shows "upload_to_zenodo E deposition_id filename bucket_url file_url filebase env_name w =
      (Inr (), (s', snd w @
        [Call (CallUpload deposition_id filename bucket_url file_url filebase env_name),
         Http (GetDeposition deposition_id) (Some r)]))
    \<and> (\<forall>label x. content = label @ ''='' @ x \<and> CHR ''='' \<notin> set x
          \<longrightarrow> current_file_checksum content = strip x)"
proof -
  have "already_uploaded E deposition_id filename env_name
          (fst w, snd w @ [Call (CallUpload deposition_id filename bucket_url file_url filebase env_name)])
        = (Inr True, (s', snd w @
        [Call (CallUpload deposition_id filename bucket_url file_url filebase env_name),
         Http (GetDeposition deposition_id) (Some r)]))"
    using assms(2-6)
    by (simp add: already_uploaded_def bind_def http_def lift_def ret_def raise_for_status_def)
  then have "upload_to_zenodo E deposition_id filename bucket_url file_url filebase env_name w =
      (Inr (), (s', snd w @
        [Call (CallUpload deposition_id filename bucket_url file_url filebase env_name),
         Http (GetDeposition deposition_id) (Some r)]))"
    using assms(1) by (simp add: upload_to_zenodo_def bind_def log_call_def ret_def)
  moreover have "current_file_checksum content = strip x"
    if "content = label @ ''='' @ x" "CHR ''='' \<notin> set x" for label x
    using that split_last_after [of "CHR ''=''" x label] by (simp add: current_file_checksum_def)
  ultimately show ?thesis by blast
qed

lemma demo_md5sum_file: "md5sum_file ''data/e.tar.gz'' ''env'' = ''data/env-md5sum.txt''"
  by (simp add: md5sum_file_def dirname_def basename_def split_last_def)

lemma demo_checksum: "current_file_checksum (''md5=abc'' @ [CHR 0x0A]) = ''abc''"
  by (simp add: current_file_checksum_def split_last_def strip_def isspace_def)

lemma demo_files_checksums: "files_checksums (deposit i name next_name) = Inr [JStr ''abc'']"
  by (simp add: files_checksums_def deposit_def ebind_def)

text \<open>The archive of the example has the checksum \<open>abc\<close>, which deposition 2 stores.\<close>

theorem upload_skips_known_checksum_witness:
  "upload_to_zenodo (demo_env True) (JInt 2) ''data/e.tar.gz''
      (JStr ''https://z/api/files/2'') (JStr ''https://z/record/2'') ''e.tar.gz'' ''env'' (0, []) =
   (Inr (), (1,
     [Call (CallUpload (JInt 2) ''data/e.tar.gz''
        (JStr ''https://z/api/files/2'') (JStr ''https://z/record/2'') ''e.tar.gz'' ''env''),
      Http (GetDeposition (JInt 2)) (Some (Response 200 (Some (deposit 2 ''2'' ''2''))))]))"
proof -
  let ?r = "Response 200 (Some (deposit 2 ''2'' ''2''))"
  have 1: "endswith ''data/e.tar.gz'' ''.tar.gz''" by (simp add: endswith_def suffix_def)
  have 2: "server (demo_env True) (fst (0::nat, [] :: event list)) (GetDeposition (JInt 2))
      = (Some ?r, 1)"
    by (simp add: demo_env_def demo_respond_def)
  have 3: "\<not> (400 \<le> status_code ?r \<and> status_code ?r < 600)" by simp
  have 4: "ebind (response_json ?r) files_checksums = Inr [JStr ''abc'']"
    by (simp add: response_json_def ebind_def demo_files_checksums)
  have 5: "read_text (demo_env True) (md5sum_file ''data/e.tar.gz'' ''env'')
      = Some (''md5=abc'' @ [CHR 0x0A])"
    by (simp add: demo_md5sum_file demo_env_def)
  have 6: "JStr (current_file_checksum (''md5=abc'' @ [CHR 0x0A])) \<in> set [JStr ''abc'']"
    by (simp only: demo_checksum) simp
  from upload_skips_known_checksum [OF 1 2 3 4 5 6] show ?thesis by simp
qed

text \<open>
  C7. For a file whose name does not end in \<^verbatim>\<open>.tar.gz\<close>: the only request is the PUT of
  the file's content into the bucket, made whenever the file can be opened, and the result
  is that of the PUT; when the file cannot be opened nothing is sent. The deposition is
  never fetched, and replacing the sidecar files by any others changes nothing.
\<close>

theorem upload_non_archive_unconditional:
  assumes "\<not> endswith filename ''.tar.gz''"
  shows "(read_bytes E filename = None \<longrightarrow>
           upload_to_zenodo E deposition_id filename bucket_url file_url filebase env_name w =
             (Inl (OSError filename), (fst w, snd w @
               [Call (CallUpload deposition_id filename bucket_url file_url filebase env_name)])))
    \<and> (\<forall>fp. read_bytes E filename = Some fp \<longrightarrow>
          (\<exists>rsp s' res.
             server E (fst w) (PutBucket bucket_url filebase fp) = (rsp, s')
           \<and> upload_to_zenodo E deposition_id filename bucket_url file_url filebase env_name w =
               (res, (s', snd w @
                 [Call (CallUpload deposition_id filename bucket_url file_url filebase env_name),
                  Http (PutBucket bucket_url filebase fp) rsp]))
           \<and> res = (case rsp of None \<Rightarrow> Inl ConnectionError | Some r \<Rightarrow> raise_for_status r)))
    \<and> (\<forall>sidecar.
          upload_to_zenodo (E\<lparr>read_text := sidecar\<rparr>)
              deposition_id filename bucket_url file_url filebase env_name w =
          upload_to_zenodo E deposition_id filename bucket_url file_url filebase env_name w)"
  using assms
  by (auto simp: upload_to_zenodo_def bind_def log_call_def ret_def lift_def http_def
      split: option.splits prod.splits)

theorem upload_non_archive_unconditional_witness:
  "upload_to_zenodo (demo_env True) (JInt 2) ''report.txt''
      (JStr ''https://z/api/files/2'') (JStr ''https://z/record/2'') ''report.txt'' ''env'' (0, []) =
   (Inr (), (1,
     [Call (CallUpload (JInt 2) ''report.txt''
        (JStr ''https://z/api/files/2'') (JStr ''https://z/record/2'') ''report.txt'' ''env''),
      Http (PutBucket (JStr ''https://z/api/files/2'') ''report.txt'' ''bytes'')
        (Some (Response 201 (Some (JObj []))))]))"
proof -
  have 1: "\<not> endswith ''report.txt'' ''.tar.gz''" by (simp add: endswith_def suffix_def)
  have 2: "read_bytes (demo_env True) ''report.txt'' = Some ''bytes''"
    by (simp add: demo_env_def)
  have 3: "server (demo_env True) (fst (0::nat, [] :: event list))
      (PutBucket (JStr ''https://z/api/files/2'') ''report.txt'' ''bytes'')
      = (Some (Response 201 (Some (JObj []))), 1)"
    by (simp add: demo_env_def demo_respond_def)
  from upload_non_archive_unconditional [OF 1, where E = "demo_env True" and w = "(0, [])"
      and bucket_url = "JStr ''https://z/api/files/2''" and filebase = "''report.txt''"
      and deposition_id = "JInt 2" and file_url = "JStr ''https://z/record/2''"
      and env_name = "''env''"]
    2 3
  show ?thesis by (auto simp: raise_for_status_def)
qed

subsection \<open>What a program adds to the log\<close>

lemma emitsD: "emits P m \<Longrightarrow> m w = (r, w') \<Longrightarrow> \<exists>T. snd w' = snd w @ T \<and> list_all P T"
  unfolding emits_def by (metis snd_conv)

lemma emits_ret [simp]: "emits P (ret x)"
  by (simp add: emits_def ret_def)

lemma emits_lift [simp]: "emits P (lift r)"
  by (simp add: emits_def lift_def)

lemma emits_log_call: "P (Call c) \<Longrightarrow> emits P (log_call c)"
  by (simp add: emits_def log_call_def)

lemma emits_http: "(\<And>rsp. P (Http rq rsp)) \<Longrightarrow> emits P (http E rq)"
  by (auto simp: emits_def http_def split: prod.splits option.splits)

lemma emits_bind: "emits P m \<Longrightarrow> (\<And>x. emits P (f x)) \<Longrightarrow> emits P (bind m f)"
proof (unfold emits_def, intro allI)
  fix w
  assume m: "\<forall>w. \<exists>T. snd (snd (m w)) = snd w @ T \<and> list_all P T"
    and f: "\<And>x. \<forall>w. \<exists>T. snd (snd (f x w)) = snd w @ T \<and> list_all P T"
  obtain r w1 where mw: "m w = (r, w1)" by (cases "m w")
  from m mw obtain T1 where T1: "snd w1 = snd w @ T1" "list_all P T1"
    by (metis snd_conv)
  show "\<exists>T. snd (snd (bind m f w)) = snd w @ T \<and> list_all P T"
  proof (cases r)
    case (Inl e)
    with mw T1 show ?thesis by (auto simp: bind_def)
  next
    case (Inr x)
    from f [of x] obtain T2 where "snd (snd (f x w1)) = snd w1 @ T2" "list_all P T2" by blast
    with Inr mw T1 show ?thesis by (auto simp: bind_def)
  qed
qed

lemma emits_if: "emits P m \<Longrightarrow> emits P n \<Longrightarrow> emits P (if b then m else n)"
  by simp

lemma emits_create_new_deposition:
  "P (Call CallCreateNewDeposition) \<Longrightarrow> (\<And>rq rsp. P (Http rq rsp)) \<Longrightarrow>
   emits P (create_new_deposition E)"
  unfolding create_new_deposition_def
  by (intro emits_bind emits_log_call emits_http emits_lift) auto

lemma emits_upload_to_zenodo:
  "P (Call (CallUpload i fn b u fb en)) \<Longrightarrow> (\<And>rq rsp. P (Http rq rsp)) \<Longrightarrow>
   emits P (upload_to_zenodo E i fn b u fb en)"
  unfolding upload_to_zenodo_def already_uploaded_def
  by (intro emits_bind emits_log_call emits_http emits_lift emits_if emits_ret)
     (auto split: option.splits intro!: emits_bind emits_http)

lemma emits_add_meta_data:
  "P (Call (CallAddMetaData i m)) \<Longrightarrow> (\<And>rq rsp. P (Http rq rsp)) \<Longrightarrow>
   emits P (add_meta_data E i m)"
  unfolding add_meta_data_def
  by (intro emits_bind emits_log_call emits_http emits_lift) auto

lemma emits_publish_file:
  "P (Call (CallPublish i)) \<Longrightarrow> (\<And>rq rsp. P (Http rq rsp)) \<Longrightarrow>
   emits P (publish_file E i)"
  unfolding publish_file_def
  by (intro emits_bind emits_log_call emits_http emits_lift) auto

lemma emits_creation_loop:
  assumes "\<And>i fn b u fb en. P (Call (CallUpload i fn b u fb en))"
    and "\<And>i m. P (Call (CallAddMetaData i m))"
    and "\<And>rq rsp. P (Http rq rsp)"
  shows "emits P (creation_loop E A h files)"
proof (induction files)
  case Nil
  show ?case by simp
next
  case (Cons f fs)
  show ?case
    unfolding creation_loop.simps Let_def
    by (intro emits_if emits_lift emits_bind emits_upload_to_zenodo emits_add_meta_data
        Cons.IH assms)
qed

lemma create_new_deposition_log:
  "\<exists>rsp. snd (snd (create_new_deposition E w)) =
     snd w @ [Call CallCreateNewDeposition, Http PostDeposition rsp]"
  by (auto simp: create_new_deposition_def bind_def log_call_def http_def lift_def
      split: prod.splits option.splits sum.splits)

lemma bind_log:
  assumes "snd (snd (m w)) = snd w @ T0" and "\<And>x. emits P (f x)"
  shows "\<exists>rest. snd (snd (bind m f w)) = snd w @ T0 @ rest \<and> list_all P rest"
proof -
  obtain r w1 where mw: "m w = (r, w1)" by (cases "m w")
  show ?thesis
  proof (cases r)
    case (Inl e)
    with mw assms(1) show ?thesis by (auto simp: bind_def)
  next
    case (Inr x)
    from emitsD [OF assms(2)] obtain T where "snd (snd (f x w1)) = snd w1 @ T" "list_all P T"
      by (metis prod.collapse)
    with Inr mw assms(1) show ?thesis by (auto simp: bind_def)
  qed
qed

lemma filter_depositions_none:
  "list_all (\<lambda>d. keeps title owner d = Inr False) records \<Longrightarrow>
   filter_depositions title owner acc records = Inr acc"
  by (induction records arbitrary: acc) (auto simp: ebind_def)

lemma search_records_non_200: "status_code r \<noteq> 200 \<Longrightarrow> \<exists>e. search_records r = Inl e"
  by (auto simp: search_records_def response_json_def ebind_def split: option.splits)

subsection \<open>A search that finds nothing\<close>

text \<open>
  C5. When the search request raises in the transport, is answered with a status other than
  200, yields no result, or yields results none of which passes the filter, the search
  returns the triple of \<^verbatim>\<open>None\<close> without raising, and the script goes on with
  \<^verbatim>\<open>create_new_deposition\<close>: the log continues with that call and its request, and no
  new version is ever asked for.
\<close>

theorem failed_search_takes_creation_path:
  assumes "server E s (GetSearch [(''q'', search_query (config_title A) (Some (owner_id A))),
              (''sort'', ''mostrecent'')]) = (rsp, s')"
    and "rsp = None
       \<or> (\<exists>r. rsp = Some r \<and> status_code r \<noteq> 200)
       \<or> (\<exists>r. rsp = Some r \<and> search_records r = Inr [])
       \<or> (\<exists>r records. rsp = Some r \<and> search_records r = Inr records
            \<and> list_all (\<lambda>d. keeps (config_title A) (Some (owner_id A)) d = Inr False) records)"
  shows "search_for_deposition E (config_title A) (Some (owner_id A)) (s, []) =
      (Inr none3, (s',
        [Call (CallSearch (config_title A) (Some (owner_id A))),
         Http (GetSearch [(''q'', search_query (config_title A) (Some (owner_id A))),
              (''sort'', ''mostrecent'')]) rsp]))
    \<and> (\<exists>rsp2 rest. trace (snd (main E A (s, []))) =
        [Call (CallSearch (config_title A) (Some (owner_id A))),
         Http (GetSearch [(''q'', search_query (config_title A) (Some (owner_id A))),
              (''sort'', ''mostrecent'')]) rsp,
         Call CallCreateNewDeposition, Http PostDeposition rsp2] @ rest
        \<and> list_all (\<lambda>e. \<not> is_new_version_call e) rest)"
proof -
  let ?t = "config_title A" and ?o = "Some (owner_id A)"
  let ?rq = "GetSearch [(''q'', search_query ?t ?o), (''sort'', ''mostrecent'')]"
  let ?w1 = "(s', [Call (CallSearch ?t ?o), Http ?rq rsp])"
  have choose: "choose_deposition ?t ?o records = Inr none3"
    if "list_all (\<lambda>d. keeps ?t ?o d = Inr False) records" for records
    using filter_depositions_none [OF that, of "[]"]
    by (simp add: choose_deposition_def ebind_def)
  have "choose_deposition ?t ?o [] = Inr none3" by (simp add: choose_deposition_def)
  with assms(2) search_records_non_200 choose
  have "rsp = None \<or> (\<exists>r. rsp = Some r \<and> ((\<exists>e. search_records r = Inl e)
      \<or> (\<exists>records. search_records r = Inr records
            \<and> choose_deposition ?t ?o records = Inr none3)))"
    by metis
  with assms(1) have search: "search_for_deposition E ?t ?o (s, []) = (Inr none3, ?w1)"
    by (auto simp: search_for_deposition_def bind_def log_call_def http_def)
  let ?P = "\<lambda>e. \<not> is_new_version_call e"
  let ?k = "\<lambda>h. bind (creation_loop E A h (files_to_upload A)) (\<lambda>_.
           if publish A then publish_file E (fst h) else ret ())"
  have rest: "emits ?P (?k h)" for h
    by (intro emits_bind emits_creation_loop emits_if emits_publish_file emits_ret)
       (simp_all add: is_new_version_call_def)
  from create_new_deposition_log [of E ?w1] obtain rsp2 where
    c: "snd (snd (create_new_deposition E ?w1)) =
       snd ?w1 @ [Call CallCreateNewDeposition, Http PostDeposition rsp2]" by blast
  from bind_log [where m = "create_new_deposition E" and w = ?w1 and P = ?P and f = ?k,
      OF c rest]
  obtain rest where "snd (snd (bind (create_new_deposition E) ?k ?w1)) =
       snd ?w1 @ [Call CallCreateNewDeposition, Http PostDeposition rsp2] @ rest"
    and "list_all ?P rest" by blast
  then have "trace (snd (main E A (s, []))) =
        [Call (CallSearch ?t ?o), Http ?rq rsp,
         Call CallCreateNewDeposition, Http PostDeposition rsp2] @ rest \<and> list_all ?P rest"
    using search by (simp add: main_def bind_def none3_def trace_def)
  with search show ?thesis by blast
qed

subsection \<open>The branch that found a deposition\<close>

lemma ebind_Inr: "ebind (Inr x) f = f x"
  by (simp add: ebind_def)

lemma bind_Inr:
  "bind m f w = (Inr y, w') \<Longrightarrow> \<exists>x w1. m w = (Inr x, w1) \<and> f x w1 = (Inr y, w')"
  by (auto simp: bind_def split: prod.splits sum.splits)

lemma create_new_version_Inr:
  assumes "create_new_version E i w = (Inr h, w')"
  shows "\<exists>r1 nid r2. snd w' = snd w @
      [Call (CallCreateNewVersion i), Http (PostNewVersion i) (Some r1),
       Http (GetDeposition (JStr nid)) (Some r2)]
    \<and> latest_draft_name r1 = Inr nid
    \<and> ebind (response_json r2) handle_of = Inr h"
  using assms
  apply (auto simp: create_new_version_def bind_def log_call_def http_def lift_def
      split: prod.splits sum.splits option.splits)
  apply (simp add: latest_draft_name_def ebind_Inr)
  apply (simp add: ebind_Inr)
  done

lemma upload_to_zenodo_log:
  "\<exists>U. snd (snd (upload_to_zenodo E i fn b u fb en w)) =
      snd w @ Call (CallUpload i fn b u fb en) # U \<and> list_all is_http U"
proof -
  have "\<exists>rest. snd (snd (upload_to_zenodo E i fn b u fb en w)) =
      snd w @ [Call (CallUpload i fn b u fb en)] @ rest \<and> list_all is_http rest"
    unfolding upload_to_zenodo_def already_uploaded_def
    by (rule bind_log)
       (auto simp: log_call_def is_http_def split: option.splits
         intro!: emits_bind emits_http emits_if emits_lift emits_ret)
  then show ?thesis by simp
qed

lemma version_loop_log:
  "version_loop E A h files w = (Inr h', w') \<Longrightarrow>
   \<exists>passes. length passes = length files \<and> list_all pass_ok passes
     \<and> snd w' = snd w @ version_log E A (fst h) (zip files passes)
     \<and> h' = last (h # map pass_draft passes)"
proof (induction files arbitrary: h w)
  case Nil
  then show ?case by (simp add: ret_def)
next
  case (Cons f fs)
  let ?fb = "basename (abspath E f)"
  from Cons.prems have isf: "isfile E (abspath E f)"
    by (auto simp: Let_def lift_def split: if_splits)
  with Cons.prems have "bind (create_new_version E (fst h)) (\<lambda>h'.
           bind (upload_to_zenodo E (fst h') f (fst (snd h')) (snd (snd h')) ?fb (config_env_name A))
             (\<lambda>_. version_loop E A h' fs)) w = (Inr h', w')"
    by (simp add: Let_def)
  then obtain h1 w1 where cnv: "create_new_version E (fst h) w = (Inr h1, w1)"
    and rest: "bind (upload_to_zenodo E (fst h1) f (fst (snd h1)) (snd (snd h1)) ?fb (config_env_name A))
             (\<lambda>_. version_loop E A h1 fs) w1 = (Inr h', w')"
    by (blast dest: bind_Inr)
  from rest obtain x w2 where
    up: "upload_to_zenodo E (fst h1) f (fst (snd h1)) (snd (snd h1)) ?fb (config_env_name A) w1
      = (Inr x, w2)"
    and loop: "version_loop E A h1 fs w2 = (Inr h', w')"
    by (blast dest: bind_Inr)
  from create_new_version_Inr [OF cnv] obtain r1 nid r2 where
    t1: "snd w1 = snd w @ [Call (CallCreateNewVersion (fst h)),
        Http (PostNewVersion (fst h)) (Some r1), Http (GetDeposition (JStr nid)) (Some r2)]"
    and n: "latest_draft_name r1 = Inr nid"
    and g: "ebind (response_json r2) handle_of = Inr h1" by blast
  from upload_to_zenodo_log [of E "fst h1" f "fst (snd h1)" "snd (snd h1)" ?fb "config_env_name A" w1]
    up obtain U where
    t2: "snd w2 = snd w1 @ Call (CallUpload (fst h1) f (fst (snd h1)) (snd (snd h1)) ?fb
        (config_env_name A)) # U" and U: "list_all is_http U" by auto
  from Cons.IH [OF loop] obtain passes where
    l: "length passes = length fs" and ok: "list_all pass_ok passes"
    and t3: "snd w' = snd w2 @ version_log E A (fst h1) (zip fs passes)"
    and last: "h' = last (h1 # map pass_draft passes)" by blast
  let ?p = "\<lparr> pass_post = r1, pass_name = nid, pass_get = r2, pass_draft = h1, pass_upload = U \<rparr>"
  have "pass_ok ?p" using n g U by (simp add: pass_ok_def)
  with l ok t1 t2 t3 last show ?case
    by (intro exI [of _ "?p # passes"]) simp
qed

lemma http_only:
  assumes "list_all is_http U"
  shows "new_version_ids U = []" "upload_ids U = []" "uploaded_files U = []" "publish_ids U = []"
  using assms
  by (induction U; auto simp: is_http_def new_version_ids_def upload_ids_def uploaded_files_def
      publish_ids_def split: event.splits)+

lemma proj_append:
  "new_version_ids (xs @ ys) = new_version_ids xs @ new_version_ids ys"
  "upload_ids (xs @ ys) = upload_ids xs @ upload_ids ys"
  "uploaded_files (xs @ ys) = uploaded_files xs @ uploaded_files ys"
  "publish_ids (xs @ ys) = publish_ids xs @ publish_ids ys"
  by (simp_all add: new_version_ids_def upload_ids_def uploaded_files_def publish_ids_def)

lemma proj_Cons:
  "new_version_ids (e # ys) = new_version_id e @ new_version_ids ys"
  "upload_ids (e # ys) = upload_id e @ upload_ids ys"
  "uploaded_files (e # ys) = upload_file e @ uploaded_files ys"
  "publish_ids (e # ys) = publish_id e @ publish_ids ys"
  "new_version_ids [] = []" "upload_ids [] = []" "uploaded_files [] = []" "publish_ids [] = []"
  by (simp_all add: new_version_ids_def upload_ids_def uploaded_files_def publish_ids_def)

lemma version_log_proj:
  assumes "list_all pass_ok (map snd fps)"
  shows "upload_ids (version_log E A i fps) = map (\<lambda>fp. fst (pass_draft (snd fp))) fps"
    and "uploaded_files (version_log E A i fps) = map fst fps"
    and "publish_ids (version_log E A i fps) = []"
    and "new_version_ids (version_log E A i fps)
         = butlast (i # map (\<lambda>fp. fst (pass_draft (snd fp))) fps)"
  using assms
  by (induction fps arbitrary: i; auto simp: proj_append proj_Cons http_only pass_ok_def)+

lemma successively_http:
  "list_all is_http U \<Longrightarrow> successively upload_follows_fetch (e # U)"
  by (induction U arbitrary: e) (auto simp: is_http_def split: event.splits)

lemma version_log_nonempty: "version_log E A i (fp # fps) \<noteq> []"
  by (cases fp) simp

lemma version_log_successively:
  assumes "list_all pass_ok (map snd fps)"
  shows "successively upload_follows_fetch (version_log E A i fps)
     \<and> (fps \<noteq> [] \<longrightarrow> hd (version_log E A i fps) = Call (CallCreateNewVersion i))"
  using assms
proof (induction fps arbitrary: i)
  case Nil
  show ?case by simp
next
  case (Cons fp fps)
  obtain f p where fp: "fp = (f, p)" by (cases fp)
  from Cons.prems fp have ok: "pass_ok p" and rest: "list_all pass_ok (map snd fps)" by auto
  let ?up = "Call (CallUpload (fst (pass_draft p)) f (fst (snd (pass_draft p)))
        (snd (snd (pass_draft p))) (basename (abspath E f)) (config_env_name A))"
  let ?tail = "version_log E A (fst (pass_draft p)) fps"
  from ok have U: "list_all is_http (pass_upload p)" by (simp add: pass_ok_def)
  have 1: "successively upload_follows_fetch (?up # pass_upload p)"
    by (rule successively_http [OF U])
  have 2: "successively upload_follows_fetch ((?up # pass_upload p) @ ?tail)"
  proof (cases fps)
    case Nil
    with 1 show ?thesis by simp
  next
    case (Cons a list)
    with Cons.IH [OF rest, of "fst (pass_draft p)"]
    have "successively upload_follows_fetch ?tail"
      and "hd ?tail = Call (CallCreateNewVersion (fst (pass_draft p)))"
      and "?tail \<noteq> []" by (auto simp: version_log_nonempty)
    with 1 show ?thesis
      by (simp only: successively_append_iff) auto
  qed
  from ok have "upload_follows_fetch (Http (GetDeposition (JStr (pass_name p))) (Some (pass_get p))) ?up"
    by (cases "pass_draft p") (simp add: pass_ok_def)
  with 2 show ?case by (simp add: fp)
qed

lemma search_for_deposition_log:
  "\<exists>rsp. snd (snd (search_for_deposition E t ow w)) =
     snd w @ [Call (CallSearch t ow),
       Http (GetSearch [(''q'', search_query t ow), (''sort'', ''mostrecent'')]) rsp]"
  by (auto simp: search_for_deposition_def bind_def log_call_def http_def
      split: prod.splits sum.splits option.splits)

lemma publish_file_Inr:
  "publish_file E i w = (Inr x, w') \<Longrightarrow>
   \<exists>r. snd w' = snd w @ [Call (CallPublish i), Http (PostPublish i) (Some r)]"
  by (auto simp: publish_file_def bind_def log_call_def http_def lift_def
      split: prod.splits sum.splits option.splits)

text \<open>A run that found a deposition and ended without error.\<close>

lemma version_branch_log:
  assumes found: "search_for_deposition E (config_title A) (Some (owner_id A)) (s, []) = (Inr h, w1)"
    and id: "truthy (fst h)"
    and run: "main E A (s, []) = (Inr (), w')"
  shows "\<exists>rsp passes rsp'. length passes = length (files_to_upload A) \<and> list_all pass_ok passes
    \<and> trace w' =
        [Call (CallSearch (config_title A) (Some (owner_id A))),
         Http (GetSearch [(''q'', search_query (config_title A) (Some (owner_id A))),
              (''sort'', ''mostrecent'')]) rsp]
        @ version_log E A (fst h) (zip (files_to_upload A) passes)
        @ publish_log (publish A) (fst (last (h # map pass_draft passes))) rsp'"
proof -
  from search_for_deposition_log [of E "config_title A" "Some (owner_id A)" "(s, [])"] found
  obtain rsp where t1: "snd w1 =
        [Call (CallSearch (config_title A) (Some (owner_id A))),
         Http (GetSearch [(''q'', search_query (config_title A) (Some (owner_id A))),
              (''sort'', ''mostrecent'')]) rsp]" by auto
  from run found id have "bind (version_loop E A h (files_to_upload A)) (\<lambda>h.
           if publish A then publish_file E (fst h) else ret ()) w1 = (Inr (), w')"
    by (simp add: main_def bind_def)
  then obtain h2 w2 where loop: "version_loop E A h (files_to_upload A) w1 = (Inr h2, w2)"
    and pub: "(if publish A then publish_file E (fst h2) else ret ()) w2 = (Inr (), w')"
    by (blast dest: bind_Inr)
  from version_loop_log [OF loop] obtain passes where
    l: "length passes = length (files_to_upload A)" and ok: "list_all pass_ok passes"
    and t2: "snd w2 = snd w1 @ version_log E A (fst h) (zip (files_to_upload A) passes)"
    and h2: "h2 = last (h # map pass_draft passes)" by blast
  from pub obtain rsp' where t3: "snd w' = snd w2 @ publish_log (publish A) (fst h2) rsp'"
    by (cases "publish A") (auto simp: publish_log_def ret_def dest: publish_file_Inr)
  show ?thesis
    using l ok by (intro exI [of _ rsp] exI [of _ passes] exI [of _ rsp'])
      (simp add: trace_def t1 t2 t3 h2)
qed

lemma map_snd_zip_eq:
  "length xs = length ys \<Longrightarrow> map (\<lambda>fp. g (snd fp)) (zip xs ys) = map g ys"
  by (induction xs ys rule: list_induct2) auto

lemma map_fst_zip_eq:
  "length xs = length ys \<Longrightarrow> map fst (zip xs ys) = xs"
  by (induction xs ys rule: list_induct2) auto

text \<open>
  C1. In a run where the search found a deposition (its id is true in the test of line 280)
  and that ended without error: as many new versions were asked for as there are files;
  the files uploaded are the files given, in order; the log is the search followed by one
  pass per file (the new-version call and its request, the fetch of the draft named in its
  answer, then the upload call with the id, the bucket and the record URL of the draft
  fetched), and ends with the publish call and its request when \<^verbatim>\<open>--publish\<close> is set:
  publish is called once in that case and never otherwise.
\<close>

theorem new_version_once_per_file:
  assumes "search_for_deposition E (config_title A) (Some (owner_id A)) (s, []) = (Inr h, w1)"
    and "truthy (fst h)"
    and "main E A (s, []) = (Inr (), w')"
  shows "length (new_version_ids (trace w')) = length (files_to_upload A)
    \<and> uploaded_files (trace w') = files_to_upload A
    \<and> (\<exists>rsp passes rsp'. length passes = length (files_to_upload A) \<and> list_all pass_ok passes
        \<and> trace w' =
            [Call (CallSearch (config_title A) (Some (owner_id A))),
             Http (GetSearch [(''q'', search_query (config_title A) (Some (owner_id A))),
                  (''sort'', ''mostrecent'')]) rsp]
            @ version_log E A (fst h) (zip (files_to_upload A) passes)
            @ publish_log (publish A) (fst (last (h # map pass_draft passes))) rsp')
    \<and> length (publish_ids (trace w')) = (if publish A then 1 else 0)"
proof -
  from version_branch_log [OF assms] obtain rsp passes rsp' where
    l: "length passes = length (files_to_upload A)" and ok: "list_all pass_ok passes"
    and t: "trace w' =
        [Call (CallSearch (config_title A) (Some (owner_id A))),
         Http (GetSearch [(''q'', search_query (config_title A) (Some (owner_id A))),
              (''sort'', ''mostrecent'')]) rsp]
        @ version_log E A (fst h) (zip (files_to_upload A) passes)
        @ publish_log (publish A) (fst (last (h # map pass_draft passes))) rsp'" by blast
  from l ok have ok': "list_all pass_ok (map snd (zip (files_to_upload A) passes))" by simp
  note p = version_log_proj [OF ok', of E A "fst h"]
  have "length (butlast (fst h # map (\<lambda>fp. fst (pass_draft (snd fp)))
      (zip (files_to_upload A) passes))) = length (files_to_upload A)"
    using l by auto
  then have "length (new_version_ids (trace w')) = length (files_to_upload A)"
    by (simp add: t proj_append proj_Cons p publish_log_def)
  moreover have "uploaded_files (trace w') = files_to_upload A"
    by (simp add: t proj_append proj_Cons p publish_log_def map_fst_zip_eq [OF l [symmetric]])
  moreover have "length (publish_ids (trace w')) = (if publish A then 1 else 0)"
    by (simp add: t proj_append proj_Cons p publish_log_def)
  ultimately show ?thesis using l ok t by blast
qed

text \<open>
  C10. In such a run, the ids the new versions were asked of are the id found by the search
  followed by the ids of the drafts of all passes but the last: each new version after the
  first is asked of the draft of the pass before. Every upload call comes right after the
  fetch of the draft whose id it targets. The publish call, if any, targets the draft of
  the last pass.
\<close>

theorem new_version_against_previous_draft:
  assumes "search_for_deposition E (config_title A) (Some (owner_id A)) (s, []) = (Inr h, w1)"
    and "truthy (fst h)"
    and "main E A (s, []) = (Inr (), w')"
  shows "new_version_ids (trace w') = butlast (fst h # upload_ids (trace w'))
    \<and> length (upload_ids (trace w')) = length (files_to_upload A)
    \<and> successively upload_follows_fetch (trace w')
    \<and> publish_ids (trace w') = (if publish A then [last (fst h # upload_ids (trace w'))] else [])"
proof -
  from version_branch_log [OF assms] obtain rsp passes rsp' where
    l: "length passes = length (files_to_upload A)" and ok: "list_all pass_ok passes"
    and t: "trace w' =
        [Call (CallSearch (config_title A) (Some (owner_id A))),
         Http (GetSearch [(''q'', search_query (config_title A) (Some (owner_id A))),
              (''sort'', ''mostrecent'')]) rsp]
        @ version_log E A (fst h) (zip (files_to_upload A) passes)
        @ publish_log (publish A) (fst (last (h # map pass_draft passes))) rsp'" by blast
  let ?fps = "zip (files_to_upload A) passes"
  from l ok have ok': "list_all pass_ok (map snd ?fps)" by simp
  note p = version_log_proj [OF ok', of E A "fst h"]
  have m: "map (\<lambda>fp. fst (pass_draft (snd fp))) ?fps = map (\<lambda>p. fst (pass_draft p)) passes"
    by (rule map_snd_zip_eq [OF l [symmetric]])
  have u: "upload_ids (trace w') = map (\<lambda>p. fst (pass_draft p)) passes"
    by (simp add: t proj_append proj_Cons p m publish_log_def)
  have n: "new_version_ids (trace w') = butlast (fst h # upload_ids (trace w'))"
    unfolding u by (simp add: t proj_append proj_Cons p m publish_log_def)
  have "fst (last (h # map pass_draft passes)) = last (fst h # map (\<lambda>p. fst (pass_draft p)) passes)"
    by (induction passes arbitrary: h) auto
  then have pb: "publish_ids (trace w') =
      (if publish A then [last (fst h # upload_ids (trace w'))] else [])"
    unfolding u by (simp add: t proj_append proj_Cons p publish_log_def)
  from version_log_successively [OF ok', of E A "fst h"]
  have s1: "successively upload_follows_fetch (version_log E A (fst h) ?fps)"
    and hd: "?fps \<noteq> [] \<longrightarrow> hd (version_log E A (fst h) ?fps) = Call (CallCreateNewVersion (fst h))"
    by blast+
  have "successively upload_follows_fetch (trace w')"
  proof (cases "?fps = []")
    case True
    with l have "passes = []" by auto
    with True show ?thesis by (simp add: t publish_log_def)
  next
    case False
    then obtain fp fps where c: "?fps = fp # fps" by (cases ?fps) auto
    have ne: "version_log E A (fst h) ?fps \<noteq> []"
      unfolding c by (rule version_log_nonempty)
    have pl: "successively upload_follows_fetch
        (publish_log (publish A) (fst (last (h # map pass_draft passes))) rsp')"
      by (simp add: publish_log_def)
    have "successively upload_follows_fetch (version_log E A (fst h) ?fps
        @ publish_log (publish A) (fst (last (h # map pass_draft passes))) rsp')"
      using s1 pl by (auto simp: successively_append_iff publish_log_def)
    moreover have "hd (version_log E A (fst h) ?fps
        @ publish_log (publish A) (fst (last (h # map pass_draft passes))) rsp')
        = Call (CallCreateNewVersion (fst h))"
      using hd False ne by simp
    ultimately show ?thesis
      using ne by (simp add: t successively_Cons)
  qed
  with n u l pb show ?thesis by simp
qed

lemma demo_args_sel:
  "files_to_upload (demo_args fs p) = fs" "publish (demo_args fs p) = p"
  "owner_id (demo_args fs p) = ''5''" "config_title (demo_args fs p) = ''T''"
  "config_env_name (demo_args fs p) = ''env''"
  by (simp_all add: demo_args_def)

lemma demo_search_records_empty: "search_records (Response 200 (Some (JArr []))) = Inr []"
  by (simp add: search_records_def response_json_def ebind_def)

subsection \<open>Runs against the example service\<close>

text \<open>The search of the example finds nothing: the script creates a deposition.\<close>

theorem failed_search_takes_creation_path_witness:
  "search_for_deposition (demo_env False) ''T'' (Some ''5'') (0, []) =
      (Inr none3, (1,
        [Call (CallSearch ''T'' (Some ''5'')),
         Http (GetSearch [(''q'', search_query ''T'' (Some ''5'')), (''sort'', ''mostrecent'')])
           (Some (Response 200 (Some (JArr []))))]))
   \<and> (\<exists>rsp2 rest. trace (snd (main (demo_env False) (demo_args [''report.txt''] False) (0, []))) =
        [Call (CallSearch ''T'' (Some ''5'')),
         Http (GetSearch [(''q'', search_query ''T'' (Some ''5'')), (''sort'', ''mostrecent'')])
           (Some (Response 200 (Some (JArr [])))),
         Call CallCreateNewDeposition, Http PostDeposition rsp2] @ rest
        \<and> list_all (\<lambda>e. \<not> is_new_version_call e) rest)"
proof -
  let ?A = "demo_args [''report.txt''] False"
  let ?rsp = "Some (Response 200 (Some (JArr [])))"
  have 1: "server (demo_env False) 0
      (GetSearch [(''q'', search_query (config_title ?A) (Some (owner_id ?A))),
              (''sort'', ''mostrecent'')]) = (?rsp, 1)"
    by (simp add: demo_env_def demo_respond_def)
  have 2: "?rsp = None
       \<or> (\<exists>r. ?rsp = Some r \<and> status_code r \<noteq> 200)
       \<or> (\<exists>r. ?rsp = Some r \<and> search_records r = Inr [])
       \<or> (\<exists>r records. ?rsp = Some r \<and> search_records r = Inr records
            \<and> list_all (\<lambda>d. keeps (config_title ?A) (Some (owner_id ?A)) d = Inr False) records)"
    by (simp add: demo_search_records_empty)
  from failed_search_takes_creation_path [OF 1 2]
  show ?thesis by (simp add: demo_args_sel)
qed

lemma demo_found:
  "fst (search_for_deposition (demo_env True) ''T'' (Some ''5'') (0, []))
     = Inr (JInt 1, JStr ''https://z/api/files/1'', JStr ''https://z/record/1'')"
  by code_simp

lemma demo_run:
  "fst (main (demo_env True) (demo_args [''report.txt'', ''data/e.tar.gz''] True) (0, [])) = Inr ()"
  by code_simp

lemma demo_upload_ids:
  "upload_ids (trace (snd (main (demo_env True)
      (demo_args [''report.txt'', ''data/e.tar.gz''] True) (0, [])))) = [JInt 2, JInt 3]"
  by code_simp

text \<open>Two files and \<^verbatim>\<open>--publish\<close> on a deposition that the search found: two new
  versions, two uploads, one publish.\<close>

theorem new_version_once_per_file_witness:
  "length (new_version_ids (trace (snd (main (demo_env True)
      (demo_args [''report.txt'', ''data/e.tar.gz''] True) (0, []))))) = 2
   \<and> uploaded_files (trace (snd (main (demo_env True)
      (demo_args [''report.txt'', ''data/e.tar.gz''] True) (0, []))))
       = [''report.txt'', ''data/e.tar.gz'']
   \<and> length (publish_ids (trace (snd (main (demo_env True)
      (demo_args [''report.txt'', ''data/e.tar.gz''] True) (0, []))))) = 1"
proof -
  let ?E = "demo_env True"
  let ?A = "demo_args [''report.txt'', ''data/e.tar.gz''] True"
  let ?h = "(JInt 1, JStr ''https://z/api/files/1'', JStr ''https://z/record/1'')"
  have 1: "search_for_deposition ?E (config_title ?A) (Some (owner_id ?A)) (0, [])
      = (Inr ?h, snd (search_for_deposition ?E ''T'' (Some ''5'') (0, [])))"
    using demo_found by (simp add: demo_args_sel prod_eq_iff)
  have 2: "truthy (fst ?h)" by simp
  have 3: "main ?E ?A (0, []) = (Inr (), snd (main ?E ?A (0, [])))"
    using demo_run by (simp add: prod_eq_iff)
  from new_version_once_per_file [OF 1 2 3]
  show ?thesis by (simp add: demo_args_sel)
qed

text \<open>In that run the second new version is asked of draft 2, not of deposition 1, and
  draft 3 alone is published.\<close>

theorem new_version_against_previous_draft_witness:
  "new_version_ids (trace (snd (main (demo_env True)
      (demo_args [''report.txt'', ''data/e.tar.gz''] True) (0, [])))) = [JInt 1, JInt 2]
   \<and> publish_ids (trace (snd (main (demo_env True)
      (demo_args [''report.txt'', ''data/e.tar.gz''] True) (0, [])))) = [JInt 3]"
proof -
  let ?E = "demo_env True"
  let ?A = "demo_args [''report.txt'', ''data/e.tar.gz''] True"
  let ?h = "(JInt 1, JStr ''https://z/api/files/1'', JStr ''https://z/record/1'')"
  have 1: "search_for_deposition ?E (config_title ?A) (Some (owner_id ?A)) (0, [])
      = (Inr ?h, snd (search_for_deposition ?E ''T'' (Some ''5'') (0, [])))"
    using demo_found by (simp add: demo_args_sel prod_eq_iff)
  have 2: "truthy (fst ?h)" by simp
  have 3: "main ?E ?A (0, []) = (Inr (), snd (main ?E ?A (0, [])))"
    using demo_run by (simp add: prod_eq_iff)
  from new_version_against_previous_draft [OF 1 2 3]
  show ?thesis by (simp add: demo_upload_ids demo_args_sel)
qed

subsection \<open>HTTP errors\<close>

lemma fatal_exchange_None [simp]: "\<not> fatal_exchange (Http rq None)"
  by (cases rq) auto

lemma fail_fastI:
  "(\<And>w. \<exists>T. snd (snd (m w)) = snd w @ T \<and> (ok_log T \<or> aborted (error_of (fst (m w))) T)) \<Longrightarrow> fail_fast m"
  by (simp add: fail_fast_def)

lemma ff_ret [simp]: "fail_fast (ret x)"
  by (simp add: fail_fast_def ret_def ok_log_def)

lemma ff_lift [simp]: "fail_fast (lift r)"
  by (simp add: fail_fast_def lift_def ok_log_def)

lemma ff_log_call [simp]: "fail_fast (log_call c)"
  by (simp add: fail_fast_def log_call_def ok_log_def)

lemma ff_if: "fail_fast m \<Longrightarrow> fail_fast n \<Longrightarrow> fail_fast (if b then m else n)"
  by simp

lemma aborted_Inr [simp]: "\<not> aborted (error_of (Inr x)) T"
  by (simp add: aborted_def error_of_def)

lemma error_of_Inl [simp]: "error_of (Inl e) = Some e"
  by (simp add: error_of_def)

lemma ff_bind:
  assumes m: "fail_fast m" and f: "\<And>x. fail_fast (f x)"
  shows "fail_fast (bind m f)"
proof (rule fail_fastI)
  fix w
  obtain r w1 where mw: "m w = (r, w1)" by (cases "m w")
  from m mw obtain T1 where T1: "snd w1 = snd w @ T1"
    and c1: "ok_log T1 \<or> aborted (error_of r) T1"
    unfolding fail_fast_def by (metis fst_conv snd_conv)
  show "\<exists>T. snd (snd (bind m f w)) = snd w @ T \<and> (ok_log T \<or> aborted (error_of (fst (bind m f w))) T)"
  proof (cases r)
    case (Inl e)
    with mw T1 c1 show ?thesis by (auto simp: bind_def)
  next
    case (Inr x)
    with c1 have ok1: "ok_log T1" by simp
    obtain r2 w2 where fw: "f x w1 = (r2, w2)" by (cases "f x w1")
    from f [of x] fw obtain T2 where T2: "snd w2 = snd w1 @ T2"
      and c2: "ok_log T2 \<or> aborted (error_of r2) T2"
      unfolding fail_fast_def by (metis fst_conv snd_conv)
    have b: "bind m f w = (r2, w2)" using mw Inr fw by (simp add: bind_def)
    from c2 have "ok_log (T1 @ T2) \<or> aborted (error_of r2) (T1 @ T2)"
    proof
      assume "ok_log T2"
      with ok1 show ?thesis by (simp add: ok_log_def)
    next
      assume "aborted (error_of r2) T2"
      then obtain pre e where "T2 = pre @ [e]" "ok_log pre" "fatal_exchange e"
        "error_of r2 = Some (HTTPError (exchange_status e))" unfolding aborted_def by blast
      with ok1 have "T1 @ T2 = (T1 @ pre) @ [e]" "ok_log (T1 @ pre)" "fatal_exchange e"
        "error_of r2 = Some (HTTPError (exchange_status e))" by (simp_all add: ok_log_def)
      then have "aborted (error_of r2) (T1 @ T2)" unfolding aborted_def by blast
      then show ?thesis ..
    qed
    with b T1 T2 show ?thesis by (intro exI [of _ "T1 @ T2"]) simp
  qed
qed

text \<open>A request followed by \<open>raise_for_status\<close>, as every request but the search is.\<close>

lemma ff_checked:
  fixes E :: "'s env"
  assumes "\<And>r u. fail_fast (k r u)"
  shows "fail_fast (bind (http E rq) (\<lambda>r. bind (lift (raise_for_status r)) (k r)))"
proof (rule fail_fastI)
  fix w :: "'s world"
  let ?m = "bind (http E rq) (\<lambda>r. bind (lift (raise_for_status r)) (k r))"
  obtain rsp s' where sv: "server E (fst w) rq = (rsp, s')" by (cases "server E (fst w) rq")
  show "\<exists>T. snd (snd (?m w)) = snd w @ T \<and> (ok_log T \<or> aborted (error_of (fst (?m w))) T)"
  proof (cases rsp)
    case None
    with sv have "?m w = (Inl ConnectionError, (s', snd w @ [Http rq None]))"
      by (simp add: bind_def http_def)
    then show ?thesis by (intro exI [of _ "[Http rq None]"]) (simp add: ok_log_def)
  next
    case (Some r)
    let ?w1 = "(s', snd w @ [Http rq (Some r)])"
    show ?thesis
    proof (cases "400 \<le> status_code r \<and> status_code r < 600")
      case True
      with sv Some have run: "?m w = (Inl (HTTPError (status_code r)), ?w1)"
        by (simp add: bind_def http_def lift_def raise_for_status_def)
      show ?thesis
      proof (cases "fatal_exchange (Http rq (Some r))")
        case True
        then have "aborted (Some (HTTPError (status_code r))) [Http rq (Some r)]"
          unfolding aborted_def
          by (intro exI [of _ "[]"] exI [of _ "Http rq (Some r)"]) (simp add: ok_log_def)
        with run show ?thesis by (intro exI [of _ "[Http rq (Some r)]"]) simp
      next
        case False
        with run show ?thesis by (intro exI [of _ "[Http rq (Some r)]"]) (simp add: ok_log_def)
      qed
    next
      case False
      then have nf: "\<not> fatal_exchange (Http rq (Some r))" by (cases rq) auto
      from False have "raise_for_status r = Inr ()"
        by (auto simp: raise_for_status_def)
      with sv Some have run: "?m w = k r () ?w1"
        by (simp add: bind_def http_def lift_def)
      obtain r2 w2 where kw: "k r () ?w1 = (r2, w2)" by (cases "k r () ?w1")
      from assms [of r "()"] kw obtain T2 where T2: "snd w2 = snd ?w1 @ T2"
        and c2: "ok_log T2 \<or> aborted (error_of r2) T2"
        unfolding fail_fast_def by (metis fst_conv snd_conv)
      from c2 have "ok_log (Http rq (Some r) # T2)
          \<or> aborted (error_of r2) (Http rq (Some r) # T2)"
      proof
        assume "ok_log T2"
        with nf show ?thesis by (simp add: ok_log_def)
      next
        assume "aborted (error_of r2) T2"
        then obtain pre e where "T2 = pre @ [e]" "ok_log pre" "fatal_exchange e"
          "error_of r2 = Some (HTTPError (exchange_status e))" unfolding aborted_def by blast
        with nf have "Http rq (Some r) # T2 = (Http rq (Some r) # pre) @ [e]"
          "ok_log (Http rq (Some r) # pre)" "fatal_exchange e"
          "error_of r2 = Some (HTTPError (exchange_status e))" by (simp_all add: ok_log_def)
        then have "aborted (error_of r2) (Http rq (Some r) # T2)" unfolding aborted_def by blast
        then show ?thesis ..
      qed
      with run kw T2 show ?thesis by (intro exI [of _ "Http rq (Some r) # T2"]) simp
    qed
  qed
qed

lemma ff_checked_last: "fail_fast (bind (http E rq) (\<lambda>r. lift (raise_for_status r)))"
proof -
  have "bind (http E rq) (\<lambda>r. lift (raise_for_status r))
      = bind (http E rq) (\<lambda>r. bind (lift (raise_for_status r)) ret)"
    by (auto simp: bind_def lift_def ret_def fun_eq_iff split: prod.splits sum.splits)
  moreover have "fail_fast (bind (http E rq) (\<lambda>r. bind (lift (raise_for_status r)) ret))"
    by (rule ff_checked [where k = "\<lambda>r. ret"]) simp
  ultimately show ?thesis by simp
qed

lemmas ff_intros = ff_checked ff_checked_last ff_bind ff_log_call ff_lift ff_ret ff_if

lemma ff_create_new_deposition: "fail_fast (create_new_deposition E)"
  unfolding create_new_deposition_def by (intro ff_intros)

lemma ff_create_new_version: "fail_fast (create_new_version E i)"
  unfolding create_new_version_def by (intro ff_intros)

lemma ff_add_meta_data: "fail_fast (add_meta_data E i m)"
  unfolding add_meta_data_def by (intro ff_intros)

lemma ff_publish_file: "fail_fast (publish_file E i)"
  unfolding publish_file_def by (intro ff_intros)

lemma ff_already_uploaded: "fail_fast (already_uploaded E i fn en)"
  unfolding already_uploaded_def
  by (intro ff_intros) (auto split: option.splits)

lemma ff_upload_to_zenodo: "fail_fast (upload_to_zenodo E i fn b u fb en)"
  unfolding upload_to_zenodo_def
  by (intro ff_intros ff_already_uploaded) (auto split: option.splits intro: ff_checked_last)

lemma ff_search_for_deposition: "fail_fast (search_for_deposition E t ow)"
proof (rule fail_fastI)
  fix w :: "'a world"
  from search_for_deposition_log [of E t ow w] obtain rsp where
    "snd (snd (search_for_deposition E t ow w)) = snd w @ [Call (CallSearch t ow),
       Http (GetSearch [(''q'', search_query t ow), (''sort'', ''mostrecent'')]) rsp]" by blast
  then show "\<exists>T. snd (snd (search_for_deposition E t ow w)) = snd w @ T
      \<and> (ok_log T \<or> aborted (error_of (fst (search_for_deposition E t ow w))) T)"
    by (simp add: ok_log_def)
qed

lemma ff_creation_loop: "fail_fast (creation_loop E A h files)"
proof (induction files)
  case Nil
  show ?case by simp
next
  case (Cons f fs)
  show ?case
    unfolding creation_loop.simps Let_def
    by (intro ff_if ff_lift ff_bind ff_upload_to_zenodo ff_add_meta_data Cons.IH)
qed

lemma ff_version_loop: "fail_fast (version_loop E A h files)"
proof (induction files arbitrary: h)
  case Nil
  show ?case by simp
next
  case (Cons f fs)
  show ?case
    unfolding version_loop.simps Let_def
    by (intro ff_if ff_lift ff_bind ff_create_new_version ff_upload_to_zenodo Cons.IH)
qed

lemma ff_main: "fail_fast (main E A)"
  unfolding main_def
  by (intro ff_if ff_bind ff_ret ff_search_for_deposition ff_create_new_deposition
      ff_creation_loop ff_version_loop ff_publish_file)

text \<open>
  C9, as amended. Whenever a request of a run other than the search (the upload of a file,
  the metadata, the publish action, and the creation and versioning requests as well) is
  answered with a 4xx or 5xx status, the run ends with the \<^verbatim>\<open>HTTPError\<close> of that status
  and the exchange is the last event of the log: nothing is tried again and nothing
  follows.
\<close>

theorem http_error_aborts_run:
  assumes "main E A (s, []) = (res, w')"
    and "trace w' = pre @ Http rq (Some r) # post"
    and "\<forall>ps. rq \<noteq> GetSearch ps"
    and "400 \<le> status_code r" and "status_code r < 600"
  shows "res = Inl (HTTPError (status_code r)) \<and> post = []"
proof -
  let ?e = "Http rq (Some r)"
  from assms(3-5) have fatal: "fatal_exchange ?e" by (cases rq) auto
  from ff_main [of E A] assms(1) obtain T where T: "snd w' = T"
    and c: "ok_log T \<or> aborted (error_of res) T"
    unfolding fail_fast_def by (metis append_Nil fst_conv snd_conv)
  from T assms(2) have tr: "T = pre @ ?e # post" by (simp add: trace_def)
  with fatal have "\<not> ok_log T" by (simp add: ok_log_def)
  with c obtain pre' e' where a: "T = pre' @ [e']" "ok_log pre'"
    "error_of res = Some (HTTPError (exchange_status e'))" unfolding aborted_def by blast
  have "post = []"
  proof (rule ccontr)
    assume "post \<noteq> []"
    have "pre' = butlast T" using a(1) by simp
    also have "\<dots> = pre @ ?e # butlast post"
      using tr \<open>post \<noteq> []\<close> by (simp add: butlast_append)
    finally have "?e \<in> set pre'" by simp
    with a(2) fatal show False by (simp add: ok_log_def list_all_iff)
  qed
  with tr a(1) have "e' = ?e" by simp
  with a(3) have "res = Inl (HTTPError (status_code r))"
    by (cases res) (simp_all add: error_of_def)
  with \<open>post = []\<close> show ?thesis by simp
qed

text \<open>
  C9 as stated fails: a status that is not 2xx need not be an error. The upload of the
  example is answered with 304; \<^verbatim>\<open>raise_for_status\<close> raises nothing, the upload returns
  normally and the run goes on to publish.
\<close>

theorem non_2xx_upload_not_fatal:
  "\<not> (200 \<le> (304::int) \<and> (304::int) < 300)
   \<and> upload_to_zenodo (put_status_env 304) (JInt 2) ''report.txt''
        (JStr ''https://z/api/files/2'') (JStr ''https://z/record/2'') ''report.txt'' ''env'' (0, [])
      = (Inr (), (1,
          [Call (CallUpload (JInt 2) ''report.txt''
             (JStr ''https://z/api/files/2'') (JStr ''https://z/record/2'') ''report.txt'' ''env''),
           Http (PutBucket (JStr ''https://z/api/files/2'') ''report.txt'' ''bytes'')
             (Some (Response 304 (Some (JObj []))))]))
   \<and> fst (main (put_status_env 304) (demo_args [''report.txt''] True) (0, [])) = Inr ()
   \<and> calls (trace (snd (main (put_status_env 304) (demo_args [''report.txt''] True) (0, []))))
      = [CallSearch ''T'' (Some ''5''), CallCreateNewVersion (JInt 1),
         CallUpload (JInt 2) ''report.txt'' (JStr ''https://z/api/files/2'')
           (JStr ''https://z/record/2'') ''report.txt'' ''env'',
         CallPublish (JInt 2)]"
  by code_simp

text \<open>An upload answered with 500 ends the run: the second file is never reached.\<close>

lemma put_500_last:
  "trace (snd (main (put_status_env 500) (demo_args [''report.txt'', ''data/e.tar.gz''] True) (0, [])))
   = butlast (trace (snd (main (put_status_env 500)
        (demo_args [''report.txt'', ''data/e.tar.gz''] True) (0, []))))
     @ Http (PutBucket (JStr ''https://z/api/files/2'') ''report.txt'' ''bytes'')
         (Some (Response 500 (Some (JObj [])))) # []"
  by code_simp

theorem http_error_aborts_run_witness:
  "fst (main (put_status_env 500) (demo_args [''report.txt'', ''data/e.tar.gz''] True) (0, []))
     = Inl (HTTPError 500)"
proof -
  let ?run = "main (put_status_env 500) (demo_args [''report.txt'', ''data/e.tar.gz''] True) (0, [])"
  let ?r = "Response 500 (Some (JObj []))"
  have 1: "?run = (fst ?run, snd ?run)" by simp
  have 3: "\<forall>ps. PutBucket (JStr ''https://z/api/files/2'') ''report.txt'' ''bytes'' \<noteq> GetSearch ps"
    by simp
  have 4: "400 \<le> status_code ?r" and 5: "status_code ?r < 600" by simp_all
  from http_error_aborts_run [OF 1 put_500_last 3 4 5] show ?thesis by simp
qed

subsection \<open>Metadata\<close>

text \<open>
  C6 at a run that found a deposition: one file, \<^verbatim>\<open>--publish\<close> set. The run ends without
  error, having asked for a new version, uploaded the file and published;
  \<^verbatim>\<open>add_meta_data\<close> was never called. The same arguments on a service where the search
  finds nothing: the metadata is attached after the upload, before the publish.
\<close>

theorem version_branch_attaches_no_metadata:
  "fst (main (demo_env True) (demo_args [''report.txt''] True) (0, [])) = Inr ()
   \<and> calls (trace (snd (main (demo_env True) (demo_args [''report.txt''] True) (0, []))))
      = [CallSearch ''T'' (Some ''5''), CallCreateNewVersion (JInt 1),
         CallUpload (JInt 2) ''report.txt'' (JStr ''https://z/api/files/2'')
           (JStr ''https://z/record/2'') ''report.txt'' ''env'',
         CallPublish (JInt 2)]
   \<and> calls (trace (snd (main (demo_env False) (demo_args [''report.txt''] True) (0, []))))
      = [CallSearch ''T'' (Some ''5''), CallCreateNewDeposition,
         CallUpload (JInt 7) ''report.txt'' (JStr ''https://z/api/files/7'')
           (JStr ''https://z/record/7'') ''report.txt'' ''env'',
         CallAddMetaData (JInt 7) (JObj [(''metadata'', JObj [(''title'', JStr ''T'')])]),
         CallPublish (JInt 7)]"
  by code_simp

end
